theory Spec2Isabelle
  imports Main
begin

section \<open>The YieldCore staking vault\<close>

text \<open>
  A shallow embedding of the Solidity contract \<open>YieldCore\<close>. Every \<open>uint256\<close> is a
  natural number; the compiler (\<open>pragma solidity >0.8.18\<close>) checks every addition,
  subtraction and multiplication, so each of them is a function into \<open>error + nat\<close>
  that gives \<open>Panic_arith\<close> where the EVM would revert with \<open>Panic(0x11)\<close>. A
  reverted call leaves no trace, so a call returns either an error or the new state
  together with the token transfer it asked for and the event it emitted.
  \<open>block.timestamp\<close> is the argument \<open>now\<close> and \<open>msg.sender\<close> the argument
  \<open>sender\<close> of each call. The staking token is an external ERC20: the model records
  the transfer the vault requests and describes the executions in which the token
  performs it (a token that refuses reverts the whole call). Calls run one after the
  other, each to completion, so the \<open>nonReentrant\<close> guard has no effect to model.
\<close>

subsection \<open>Checked arithmetic and errors\<close>

type_synonym address = nat

definition UINT256_MAX :: nat where
  "UINT256_MAX = 2 ^ 256 - 1"

datatype error =
    Revert string
  | Panic_arith
  | Panic_index
  | EnforcedPause
  | ExpectedPause
  | OwnableUnauthorizedAccount address
  | OwnableInvalidOwner address

definition add256 :: "nat \<Rightarrow> nat \<Rightarrow> error + nat" where
  "add256 a b = (if a + b \<le> UINT256_MAX then Inr (a + b) else Inl Panic_arith)"

definition sub256 :: "nat \<Rightarrow> nat \<Rightarrow> error + nat" where
  "sub256 a b = (if b \<le> a then Inr (a - b) else Inl Panic_arith)"

definition mul256 :: "nat \<Rightarrow> nat \<Rightarrow> error + nat" where
  "mul256 a b = (if a * b \<le> UINT256_MAX then Inr (a * b) else Inl Panic_arith)"

definition and_then :: "error + 'a \<Rightarrow> ('a \<Rightarrow> error + 'b) \<Rightarrow> error + 'b" where
  "and_then m f = (case m of Inl e \<Rightarrow> Inl e | Inr x \<Rightarrow> f x)"

subsection \<open>Storage\<close>

definition MAX_REWARD_TIME :: nat where
  "MAX_REWARD_TIME = 86400"

definition DIVISOR :: nat where
  "DIVISOR = 100"

definition GRACE_PERIOD :: nat where
  "GRACE_PERIOD = 172800"

definition SECONDS_PER_DAY :: nat where
  "SECONDS_PER_DAY = 86400"

record StakeInfo =
  amount :: nat
  startTime :: nat
  lockPeriod :: nat
  fixedRate :: nat
  rewardsClaimed :: nat
  active :: bool
  expired :: bool

record vault =
  rewardPool :: nat
  stakes :: "address \<Rightarrow> StakeInfo list"
  dailyRateByLock :: "nat \<Rightarrow> nat"
  penaltyByLock :: "nat \<Rightarrow> nat"
  paused :: bool
  owner :: address

datatype event =
    LockParametersUpdated nat nat nat
  | RewardFunded address nat
  | Staked address nat nat nat
  | ClaimedReward address nat nat
  | UnstakeAfterLock address nat nat nat
  | EarlyUnstake address nat nat nat
  | StakeExpired address nat
  | EmergencyWithdrawal address nat nat
  | ExcessRewardsWithdrawn address nat
  | Paused address
  | Unpaused address
  | OwnershipTransferred address address

text \<open>
  \<open>SafeTransferFrom a n\<close> is \<open>stakingToken.safeTransferFrom(a, address(this), n)\<close> and
  \<open>SafeTransfer a n\<close> is \<open>stakingToken.safeTransfer(a, n)\<close>.
\<close>

datatype transfer = SafeTransferFrom address nat | SafeTransfer address nat

type_synonym outcome = "vault \<times> transfer list \<times> event"

text \<open>The constructor: an empty vault owned by the deployer, not paused.\<close>

definition init :: "address \<Rightarrow> vault" where
  "init deployer = \<lparr>rewardPool = 0, stakes = (\<lambda>_. []), dailyRateByLock = (\<lambda>_. 0),
     penaltyByLock = (\<lambda>_. 0), paused = False, owner = deployer\<rparr>"

text \<open>\<open>stakes[user][index]\<close>: reading past the end of the array is \<open>Panic(0x32)\<close>.\<close>

definition stake_at :: "vault \<Rightarrow> address \<Rightarrow> nat \<Rightarrow> error + StakeInfo" where
  "stake_at v user i =
     (if i < length (stakes v user) then Inr (stakes v user ! i) else Inl Panic_index)"

definition set_stake :: "vault \<Rightarrow> address \<Rightarrow> nat \<Rightarrow> StakeInfo \<Rightarrow> vault" where
  "set_stake v user i s = v\<lparr>stakes := (stakes v)(user := (stakes v user)[i := s])\<rparr>"

subsection \<open>The contract's functions\<close>

definition setLockParameters ::
  "address \<Rightarrow> nat \<Rightarrow> nat \<Rightarrow> nat \<Rightarrow> vault \<Rightarrow> error + outcome" where
  "setLockParameters sender lp dailyRate penaltyRate v =
     (if sender \<noteq> owner v then Inl (OwnableUnauthorizedAccount sender)
      else if \<not> lp > 0 then Inl (Revert ''invalid lock period'')
      else Inr (v\<lparr>dailyRateByLock := (dailyRateByLock v)(lp := dailyRate),
                   penaltyByLock := (penaltyByLock v)(lp := penaltyRate)\<rparr>,
                [], LockParametersUpdated lp dailyRate penaltyRate))"

definition isExpired :: "nat \<Rightarrow> StakeInfo \<Rightarrow> error + bool" where
  "isExpired now s =
     and_then (add256 (startTime s) (lockPeriod s)) (\<lambda>unlock.
     and_then (add256 unlock GRACE_PERIOD) (\<lambda>deadline.
     Inr (now \<ge> deadline)))"

definition fundRewardPool :: "address \<Rightarrow> nat \<Rightarrow> vault \<Rightarrow> error + outcome" where
  "fundRewardPool sender amt v =
     (if sender \<noteq> owner v then Inl (OwnableUnauthorizedAccount sender)
      else if paused v then Inl EnforcedPause
      else if \<not> amt > 0 then Inl (Revert ''can't deposit zero'')
      else and_then (add256 (rewardPool v) amt) (\<lambda>rp.
           Inr (v\<lparr>rewardPool := rp\<rparr>, [SafeTransferFrom sender amt], RewardFunded sender amt)))"

definition stake :: "nat \<Rightarrow> address \<Rightarrow> nat \<Rightarrow> nat \<Rightarrow> vault \<Rightarrow> error + outcome" where
  "stake now sender amt lp v =
     (if paused v then Inl EnforcedPause
      else if \<not> amt > 0 then Inl (Revert ''can't stake zero'')
      else let rate = dailyRateByLock v lp in
        if \<not> rate > 0 then Inl (Revert ''invalid lock period'')
        else Inr (v\<lparr>stakes := (stakes v)(sender := stakes v sender @
                      [\<lparr>amount = amt, startTime = now, lockPeriod = lp, fixedRate = rate,
                        rewardsClaimed = 0, active = True, expired = False\<rparr>])\<rparr>,
                  [SafeTransferFrom sender amt],
                  Staked sender (length (stakes v sender)) amt lp))"

definition calculateReward :: "nat \<Rightarrow> vault \<Rightarrow> address \<Rightarrow> nat \<Rightarrow> error + nat" where
  "calculateReward now v user i =
     and_then (stake_at v user i) (\<lambda>s.
     if \<not> active s \<or> expired s then Inr 0
     else and_then (isExpired now s) (\<lambda>ex.
     if ex then Inr 0
     else and_then (sub256 now (startTime s)) (\<lambda>elapsed.
     let timeElapsed = (if elapsed > MAX_REWARD_TIME then MAX_REWARD_TIME else elapsed) in
     and_then (mul256 (amount s) (fixedRate s)) (\<lambda>p.
     and_then (mul256 p timeElapsed) (\<lambda>q.
     let totalEarned = q div (DIVISOR * 86400) in
     if totalEarned \<le> rewardsClaimed s then Inr 0
     else Inr (totalEarned - rewardsClaimed s))))))"

definition claimReward :: "nat \<Rightarrow> address \<Rightarrow> nat \<Rightarrow> vault \<Rightarrow> error + outcome" where
  "claimReward now sender i v =
     (if paused v then Inl EnforcedPause
      else and_then (stake_at v sender i) (\<lambda>s.
      if \<not> active s then Inl (Revert ''inactive stake'')
      else and_then (calculateReward now v sender i) (\<lambda>reward.
      if \<not> reward > 0 then Inl (Revert ''no accrued rewards'')
      else if \<not> reward \<le> rewardPool v then Inl (Revert ''insufficient reward pool'')
      else and_then (add256 (rewardsClaimed s) reward) (\<lambda>rc.
           and_then (sub256 (rewardPool v) reward) (\<lambda>rp.
           Inr (set_stake (v\<lparr>rewardPool := rp\<rparr>) sender i (s\<lparr>rewardsClaimed := rc\<rparr>),
                [SafeTransfer sender reward], ClaimedReward sender i reward))))))"

definition unstake :: "nat \<Rightarrow> address \<Rightarrow> nat \<Rightarrow> vault \<Rightarrow> error + outcome" where
  "unstake now sender i v =
     (if paused v then Inl EnforcedPause
      else and_then (stake_at v sender i) (\<lambda>s0.
      if \<not> (active s0 \<or> expired s0) then Inl (Revert ''inactive stake'')
      else let principal = amount s0 in
      and_then (isExpired now s0) (\<lambda>ex.
      let s1 = (if ex then s0\<lparr>expired := True\<rparr> else s0);
          v1 = set_stake v sender i s1 in
      and_then (add256 (startTime s1) (lockPeriod s1)) (\<lambda>unlock.
      let lockExpired = (now \<ge> unlock) in
      if lockExpired then
        and_then (calculateReward now v1 sender i) (\<lambda>reward.
        if \<not> reward \<le> rewardPool v1 then Inl (Revert ''insufficient reward pool balance'')
        else and_then (sub256 (rewardPool v1) reward) (\<lambda>rp.
             and_then (add256 (rewardsClaimed s1) reward) (\<lambda>rc.
             and_then (add256 principal reward) (\<lambda>payout.
             Inr (set_stake (v1\<lparr>rewardPool := rp\<rparr>) sender i
                    (s1\<lparr>rewardsClaimed := rc, amount := 0, active := False\<rparr>),
                  [SafeTransfer sender payout],
                  UnstakeAfterLock sender i principal reward)))))
      else
        let penaltyPercentage = penaltyByLock v1 (lockPeriod s1) in
        and_then (mul256 principal penaltyPercentage) (\<lambda>pp.
        let penalty = pp div DIVISOR in
        and_then (add256 (rewardPool v1) penalty) (\<lambda>rp.
        and_then (sub256 (amount s1) penalty) (\<lambda>payout.
        Inr (set_stake (v1\<lparr>rewardPool := rp\<rparr>) sender i (s1\<lparr>amount := 0, active := False\<rparr>),
             [SafeTransfer sender payout],
             EarlyUnstake sender i principal penalty))))))))"

definition cleanUpExpiredStake ::
  "nat \<Rightarrow> address \<Rightarrow> address \<Rightarrow> nat \<Rightarrow> vault \<Rightarrow> error + outcome" where
  "cleanUpExpiredStake now sender user i v =
     (if sender \<noteq> owner v then Inl (OwnableUnauthorizedAccount sender)
      else and_then (stake_at v user i) (\<lambda>s.
      if \<not> active s then Inl (Revert ''already inactive'')
      else and_then (isExpired now s) (\<lambda>ex.
      if \<not> ex then Inl (Revert ''not expired'')
      else Inr (set_stake v user i (s\<lparr>active := False, expired := True\<rparr>), [],
                StakeExpired user i))))"

definition emergencyWithdraw :: "address \<Rightarrow> nat \<Rightarrow> vault \<Rightarrow> error + outcome" where
  "emergencyWithdraw sender i v =
     (if \<not> paused v then Inl ExpectedPause
      else and_then (stake_at v sender i) (\<lambda>s.
      if \<not> active s then Inl (Revert ''invalid stake'')
      else let principal = amount s in
        Inr (set_stake v sender i (s\<lparr>amount := 0, active := False\<rparr>),
             [SafeTransfer sender principal],
             EmergencyWithdrawal sender i principal)))"

text \<open>
  \<open>withdrawExcessRewards\<close> reads \<open>stakingToken.balanceOf(address(this))\<close>; the token's
  answer is the argument \<open>balance\<close>.
\<close>

definition withdrawExcessRewards :: "address \<Rightarrow> nat \<Rightarrow> vault \<Rightarrow> error + outcome" where
  "withdrawExcessRewards sender balance v =
     (if sender \<noteq> owner v then Inl (OwnableUnauthorizedAccount sender)
      else if \<not> paused v then Inl ExpectedPause
      else if \<not> balance > rewardPool v then Inl (Revert ''no excess rewards'')
      else and_then (sub256 balance (rewardPool v)) (\<lambda>excess.
           Inr (v, [SafeTransfer (owner v) excess], ExcessRewardsWithdrawn (owner v) excess)))"

definition maxReward :: "vault \<Rightarrow> address \<Rightarrow> nat \<Rightarrow> error + nat" where
  "maxReward v user i =
     and_then (stake_at v user i) (\<lambda>s.
     let rate = fixedRate s in
     and_then (mul256 (amount s) rate) (\<lambda>p. Inr (p div 100)))"

definition pause :: "address \<Rightarrow> vault \<Rightarrow> error + outcome" where
  "pause sender v =
     (if sender \<noteq> owner v then Inl (OwnableUnauthorizedAccount sender)
      else if paused v then Inl EnforcedPause
      else Inr (v\<lparr>paused := True\<rparr>, [], Paused sender))"

definition unpause :: "address \<Rightarrow> vault \<Rightarrow> error + outcome" where
  "unpause sender v =
     (if sender \<noteq> owner v then Inl (OwnableUnauthorizedAccount sender)
      else if \<not> paused v then Inl ExpectedPause
      else Inr (v\<lparr>paused := False\<rparr>, [], Unpaused sender))"

text \<open>
  The contract inherits \<open>transferOwnership\<close> and \<open>renounceOwnership\<close> from
  OpenZeppelin's \<open>Ownable\<close>, which it imports; they are callable like its own
  functions and change the owner only. \<open>address(0)\<close> is the address 0.
\<close>

definition transferOwnership :: "address \<Rightarrow> address \<Rightarrow> vault \<Rightarrow> error + outcome" where
  "transferOwnership sender newOwner v =
     (if sender \<noteq> owner v then Inl (OwnableUnauthorizedAccount sender)
      else if newOwner = 0 then Inl (OwnableInvalidOwner 0)
      else Inr (v\<lparr>owner := newOwner\<rparr>, [], OwnershipTransferred (owner v) newOwner))"

definition renounceOwnership :: "address \<Rightarrow> vault \<Rightarrow> error + outcome" where
  "renounceOwnership sender v =
     (if sender \<noteq> owner v then Inl (OwnableUnauthorizedAccount sender)
      else Inr (v\<lparr>owner := 0\<rparr>, [], OwnershipTransferred (owner v) 0))"

subsection \<open>Transactions and reachable states\<close>

datatype call =
    SetLockParameters nat nat nat
  | FundRewardPool nat
  | Stake nat nat
  | ClaimReward nat
  | Unstake nat
  | CleanUpExpiredStake address nat
  | EmergencyWithdraw nat
  | WithdrawExcessRewards nat
  | Pause
  | Unpause
  | TransferOwnership address
  | RenounceOwnership

fun exec :: "nat \<Rightarrow> address \<Rightarrow> call \<Rightarrow> vault \<Rightarrow> error + outcome" where
  "exec now sender (SetLockParameters lp r p) v = setLockParameters sender lp r p v"
| "exec now sender (FundRewardPool a) v = fundRewardPool sender a v"
| "exec now sender (Stake a lp) v = stake now sender a lp v"
| "exec now sender (ClaimReward i) v = claimReward now sender i v"
| "exec now sender (Unstake i) v = unstake now sender i v"
| "exec now sender (CleanUpExpiredStake u i) v = cleanUpExpiredStake now sender u i v"
| "exec now sender (EmergencyWithdraw i) v = emergencyWithdraw sender i v"
| "exec now sender (WithdrawExcessRewards b) v = withdrawExcessRewards sender b v"
| "exec now sender Pause v = pause sender v"
| "exec now sender Unpause v = unpause sender v"
| "exec now sender (TransferOwnership a) v = transferOwnership sender a v"
| "exec now sender RenounceOwnership v = renounceOwnership sender v"

text \<open>The ABI decodes every numeric argument as a \<open>uint256\<close>.\<close>

fun call_fits :: "call \<Rightarrow> bool" where
  "call_fits (SetLockParameters lp r p) \<longleftrightarrow> lp \<le> UINT256_MAX \<and> r \<le> UINT256_MAX \<and> p \<le> UINT256_MAX"
| "call_fits (FundRewardPool a) \<longleftrightarrow> a \<le> UINT256_MAX"
| "call_fits (Stake a lp) \<longleftrightarrow> a \<le> UINT256_MAX \<and> lp \<le> UINT256_MAX"
| "call_fits (ClaimReward i) \<longleftrightarrow> i \<le> UINT256_MAX"
| "call_fits (Unstake i) \<longleftrightarrow> i \<le> UINT256_MAX"
| "call_fits (CleanUpExpiredStake u i) \<longleftrightarrow> i \<le> UINT256_MAX"
| "call_fits (EmergencyWithdraw i) \<longleftrightarrow> i \<le> UINT256_MAX"
| "call_fits (WithdrawExcessRewards b) \<longleftrightarrow> b \<le> UINT256_MAX"
| "call_fits Pause \<longleftrightarrow> True"
| "call_fits Unpause \<longleftrightarrow> True"
| "call_fits (TransferOwnership a) \<longleftrightarrow> True"
| "call_fits RenounceOwnership \<longleftrightarrow> True"

text \<open>
  \<open>reach t v\<close>: the vault is in state \<open>v\<close> after a block with timestamp \<open>t\<close>, having
  started from the constructor and run any sequence of successful calls, by any
  senders, at timestamps that never decrease.
\<close>

inductive reach :: "nat \<Rightarrow> vault \<Rightarrow> bool" where
  reach_init: "t \<le> UINT256_MAX \<Longrightarrow> reach t (init deployer)"
| reach_step: "reach t v \<Longrightarrow> t \<le> t' \<Longrightarrow> t' \<le> UINT256_MAX \<Longrightarrow> call_fits c \<Longrightarrow>
     exec t' sender c v = Inr (v', xs, ev) \<Longrightarrow> reach t' v'"

text \<open>\<open>later v v'\<close>: some sequence of successful calls leads from \<open>v\<close> to \<open>v'\<close>.\<close>

inductive later :: "vault \<Rightarrow> vault \<Rightarrow> bool" where
  later_refl: "later v v"
| later_step: "later v v' \<Longrightarrow> exec t sender c v' = Inr (v'', xs, ev) \<Longrightarrow> later v v''"

text \<open>
  What every stake record of a reachable state satisfies at the time \<open>t\<close> of the last
  block: its fields are \<open>uint256\<close> values, it was created in the past, its claimed
  reward is within the cap while its principal is still held, it is flagged expired
  only after its grace period ended, and it holds no principal once it is inactive
  and not flagged expired.
\<close>

definition stake_inv :: "nat \<Rightarrow> StakeInfo \<Rightarrow> bool" where
  "stake_inv t s \<longleftrightarrow>
     amount s \<le> UINT256_MAX \<and> rewardsClaimed s \<le> UINT256_MAX \<and> startTime s \<le> t \<and>
     (if active s then 0 < amount s \<and> \<not> expired s
      else amount s = 0 \<or> expired s) \<and>
     (if expired s
      then startTime s + lockPeriod s + GRACE_PERIOD \<le> t
      else True) \<and>
     (if active s \<or> 0 < amount s
      then rewardsClaimed s \<le> amount s * fixedRate s div 100
      else True)"

definition vault_inv :: "nat \<Rightarrow> vault \<Rightarrow> bool" where
  "vault_inv t v \<longleftrightarrow> (\<forall>u. list_all (stake_inv t) (stakes v u))"

subsection \<open>The reward formula as the specification words it\<close>

text \<open>
  Zero for a stake that is inactive, flagged expired or past its grace period;
  otherwise \<open>max(totalEarned - claimed, 0)\<close> with
  \<open>totalEarned = principal * fixedRate * elapsed / (100 * SECONDS_PER_DAY)\<close> and
  \<open>elapsed = min(now - start, MAX_REWARD_TIME)\<close>.
\<close>

definition calculateReward_spec :: "nat \<Rightarrow> StakeInfo \<Rightarrow> nat" where
  "calculateReward_spec now s =
     (if \<not> active s \<or> expired s \<or> now \<ge> startTime s + lockPeriod s + GRACE_PERIOD then 0
      else let elapsed = min (now - startTime s) MAX_REWARD_TIME;
               totalEarned = amount s * fixedRate s * elapsed div (100 * SECONDS_PER_DAY)
           in nat (max (int totalEarned - int (rewardsClaimed s)) 0))"

text \<open>
  \<open>reward_fits now s\<close>: no checked operation of \<open>calculateReward\<close> leaves the
  \<open>uint256\<close> range on record \<open>s\<close> at time \<open>now\<close>. (The condition
  \<open>\<not> active s \<or> expired s\<close> is tested first and returns before any arithmetic.)
\<close>

definition reward_fits :: "nat \<Rightarrow> StakeInfo \<Rightarrow> bool" where
  "reward_fits now s \<longleftrightarrow>
     \<not> active s \<or> expired s \<or>
     (startTime s + lockPeriod s + GRACE_PERIOD \<le> UINT256_MAX \<and>
      (startTime s + lockPeriod s + GRACE_PERIOD \<le> now \<or>
       (startTime s \<le> now \<and> amount s * fixedRate s \<le> UINT256_MAX \<and>
        amount s * fixedRate s * min (now - startTime s) MAX_REWARD_TIME \<le> UINT256_MAX)))"

subsection \<open>Concrete states\<close>

text \<open>
  The scenario of the tests: the owner (address 7) registers a 600 second lock with a
  daily rate of 10 and a penalty of 10, funds the pool with 1000, and account 1 stakes
  100 at time 0. \<open>sample_vault s pool\<close> is that vault with \<open>s\<close> as the record of
  account 1 and \<open>pool\<close> in the reward pool.
\<close>

definition sample_stake :: StakeInfo where
  "sample_stake = \<lparr>amount = 100, startTime = 0, lockPeriod = 600, fixedRate = 10,
     rewardsClaimed = 0, active = True, expired = False\<rparr>"

definition sample_vault :: "StakeInfo \<Rightarrow> nat \<Rightarrow> vault" where
  "sample_vault s pool = \<lparr>rewardPool = pool, stakes = (\<lambda>_. [])(1 := [s]),
     dailyRateByLock = (\<lambda>_. 0)(600 := 10), penaltyByLock = (\<lambda>_. 0)(600 := 10),
     paused = False, owner = 7\<rparr>"

text \<open>
  A second scenario: the owner registers the 600 second lock with a penalty of 101 and
  account 1 stakes a single token unit at time 0.
\<close>

definition unit_vault :: vault where
  "unit_vault = \<lparr>rewardPool = 0,
     stakes = (\<lambda>_. [])(1 := [\<lparr>amount = 1, startTime = 0, lockPeriod = 600, fixedRate = 10,
        rewardsClaimed = 0, active = True, expired = False\<rparr>]),
     dailyRateByLock = (\<lambda>_. 0)(600 := 10), penaltyByLock = (\<lambda>_. 0)(600 := 101),
     paused = False, owner = 7\<rparr>"

text \<open>
  A third scenario: the owner registers the 600 second lock with a penalty of 101 and
  account 1 stakes 100 at time 0.
\<close>

definition penal_vault :: vault where
  "penal_vault = \<lparr>rewardPool = 0,
     stakes = (\<lambda>_. [])(1 := [\<lparr>amount = 100, startTime = 0, lockPeriod = 600, fixedRate = 10,
        rewardsClaimed = 0, active = True, expired = False\<rparr>]),
     dailyRateByLock = (\<lambda>_. 0)(600 := 10), penaltyByLock = (\<lambda>_. 0)(600 := 101),
     paused = False, owner = 7\<rparr>"

subsection \<open>Basic facts\<close>

lemma and_then_Inl [simp]: "and_then (Inl e) f = Inl e"
  by (simp add: and_then_def)

lemma and_then_Inr [simp]: "and_then (Inr x) f = f x"
  by (simp add: and_then_def)

lemma and_then_eq_Inr: "and_then m f = Inr y \<longleftrightarrow> (\<exists>x. m = Inr x \<and> f x = Inr y)"
  by (cases m) simp_all

lemma add256_eq_Inr: "add256 a b = Inr c \<longleftrightarrow> a + b \<le> UINT256_MAX \<and> c = a + b"
  by (auto simp: add256_def)

lemma sub256_eq_Inr: "sub256 a b = Inr c \<longleftrightarrow> b \<le> a \<and> c = a - b"
  by (auto simp: sub256_def)

lemma mul256_eq_Inr: "mul256 a b = Inr c \<longleftrightarrow> a * b \<le> UINT256_MAX \<and> c = a * b"
  by (auto simp: mul256_def)

lemma stake_at_eq_Inr: "stake_at v u i = Inr s \<longleftrightarrow> i < length (stakes v u) \<and> s = stakes v u ! i"
  by (auto simp: stake_at_def)

lemma isExpired_eq_Inr:
  "isExpired now s = Inr b \<longleftrightarrow>
     startTime s + lockPeriod s + GRACE_PERIOD \<le> UINT256_MAX \<and>
     b = (startTime s + lockPeriod s + GRACE_PERIOD \<le> now)"
  by (auto simp: isExpired_def and_then_eq_Inr add256_eq_Inr)

lemma claimable_nat: "nat (max (int a - int b) 0) = a - b"
  by (cases "b \<le> a") (simp_all add: max_def nat_diff_distrib')

lemma set_stake_same: "i < length (stakes v u) \<Longrightarrow> set_stake v u i (stakes v u ! i) = v"
  by (simp add: set_stake_def)

lemma stakes_set_stake:
  "stakes (set_stake v u i s) u' = (if u' = u then (stakes v u)[i := s] else stakes v u')"
  by (simp add: set_stake_def)

lemma rewardPool_set_stake [simp]: "rewardPool (set_stake v u i s) = rewardPool v"
  by (simp add: set_stake_def)

lemma paused_set_stake [simp]: "paused (set_stake v u i s) = paused v"
  by (simp add: set_stake_def)

lemma penaltyByLock_set_stake [simp]: "penaltyByLock (set_stake v u i s) = penaltyByLock v"
  by (simp add: set_stake_def)

lemma stake_at_set_stake:
  "i < length (stakes v u) \<Longrightarrow> stake_at (set_stake v u i s) u i = Inr s"
  by (simp add: stake_at_def set_stake_def)

lemma calculateReward_cases:
  assumes "i < length (stakes v u)" and "s = stakes v u ! i"
  shows "calculateReward now v u i =
     (if reward_fits now s then Inr (calculateReward_spec now s) else Inl Panic_arith)"
proof -
  have at: "stake_at v u i = Inr s"
    using assms by (simp add: stake_at_def)
  show ?thesis
  proof (cases "\<not> active s \<or> expired s")
    case True
    then show ?thesis
      by (simp add: calculateReward_def at reward_fits_def calculateReward_spec_def)
  next
    case live: False
    show ?thesis
    proof (cases "startTime s + lockPeriod s + GRACE_PERIOD \<le> UINT256_MAX")
      case False
      then show ?thesis using live
        by (simp add: calculateReward_def at reward_fits_def isExpired_def add256_def)
    next
      case fits: True
      then have ex: "isExpired now s = Inr (startTime s + lockPeriod s + GRACE_PERIOD \<le> now)"
        by (simp add: isExpired_eq_Inr)
      show ?thesis
      proof (cases "startTime s + lockPeriod s + GRACE_PERIOD \<le> now")
        case True
        then show ?thesis using live fits
          by (simp add: calculateReward_def at ex reward_fits_def calculateReward_spec_def)
      next
        case False
        then show ?thesis using live fits
          by (simp add: calculateReward_def at ex reward_fits_def calculateReward_spec_def
              sub256_def mul256_def Let_def claimable_nat min_def DIVISOR_def SECONDS_PER_DAY_def)
      qed
    qed
  qed
qed

lemma earned_le_cap: "e \<le> MAX_REWARD_TIME \<Longrightarrow> a * r * e div (100 * SECONDS_PER_DAY) \<le> a * r div 100"
proof -
  assume "e \<le> MAX_REWARD_TIME"
  then have "a * r * e \<le> a * r * 86400" by (simp add: MAX_REWARD_TIME_def)
  then have "a * r * e div 8640000 \<le> a * r * 86400 div 8640000" by (rule div_le_mono)
  also have "a * r * 86400 div 8640000 = a * r div 100" by simp
  finally show ?thesis by (simp add: SECONDS_PER_DAY_def)
qed

lemma calculateReward_spec_cap:
  "rewardsClaimed s \<le> amount s * fixedRate s div 100 \<Longrightarrow>
   rewardsClaimed s + calculateReward_spec now s \<le> amount s * fixedRate s div 100"
  using earned_le_cap[of "min (now - startTime s) MAX_REWARD_TIME" "amount s" "fixedRate s"]
  by (simp add: calculateReward_spec_def claimable_nat Let_def) linarith

lemma claimReward_Inr:
  assumes "claimReward now u i v = Inr (v', xs, ev)"
  shows "\<exists>reward. \<not> paused v \<and> i < length (stakes v u) \<and> active (stakes v u ! i) \<and>
     calculateReward now v u i = Inr reward \<and> 0 < reward \<and> reward \<le> rewardPool v \<and>
     rewardsClaimed (stakes v u ! i) + reward \<le> UINT256_MAX \<and>
     v' = set_stake (v\<lparr>rewardPool := rewardPool v - reward\<rparr>) u i
            ((stakes v u ! i)\<lparr>rewardsClaimed := rewardsClaimed (stakes v u ! i) + reward\<rparr>) \<and>
     xs = [SafeTransfer u reward] \<and> ev = ClaimedReward u i reward"
  using assms
  by (auto simp: claimReward_def and_then_eq_Inr stake_at_eq_Inr add256_eq_Inr sub256_eq_Inr
      split: if_splits)


lemma isExpired_fits:
  "startTime s + lockPeriod s + GRACE_PERIOD \<le> UINT256_MAX \<Longrightarrow>
   isExpired now s = Inr (startTime s + lockPeriod s + GRACE_PERIOD \<le> now)"
  by (simp add: isExpired_eq_Inr)

lemma isExpired_overflow:
  "\<not> startTime s + lockPeriod s + GRACE_PERIOD \<le> UINT256_MAX \<Longrightarrow> isExpired now s = Inl Panic_arith"
  by (simp add: isExpired_def add256_def)

lemma set_stake_twice: "set_stake (set_stake v u i s) u i s' = set_stake v u i s'"
  by (simp add: set_stake_def)

lemma set_stake_pool:
  "set_stake (v\<lparr>rewardPool := p\<rparr>) u i s = (set_stake v u i s)\<lparr>rewardPool := p\<rparr>"
  by (simp add: set_stake_def)

lemma unstake_early_eq:
  assumes "\<not> paused v" "i < length (stakes v u)" "s = stakes v u ! i" "active s \<or> expired s"
    and "startTime s + lockPeriod s + GRACE_PERIOD \<le> UINT256_MAX"
    and "now < startTime s + lockPeriod s"
  shows "unstake now u i v =
     and_then (mul256 (amount s) (penaltyByLock v (lockPeriod s))) (\<lambda>pp.
     and_then (add256 (rewardPool v) (pp div 100)) (\<lambda>rp.
     and_then (sub256 (amount s) (pp div 100)) (\<lambda>payout.
     Inr (set_stake (v\<lparr>rewardPool := rp\<rparr>) u i (s\<lparr>amount := 0, active := False\<rparr>),
          [SafeTransfer u payout], EarlyUnstake u i (amount s) (pp div 100)))))"
proof -
  have ex: "isExpired now s = Inr False"
    using assms by (simp add: isExpired_fits)
  have unlock: "add256 (startTime s) (lockPeriod s) = Inr (startTime s + lockPeriod s)"
    using assms by (simp add: add256_def)
  have at: "stake_at v u i = Inr s" and same: "set_stake v u i s = v"
    using assms(2,3) by (simp_all add: stake_at_def set_stake_same)
  show ?thesis
    using assms(1,4,6)
    by (auto simp: unstake_def at ex unlock Let_def same DIVISOR_def)
qed

lemma unstake_grace_eq:
  assumes "\<not> paused v" "i < length (stakes v u)" "s = stakes v u ! i" "active s \<or> expired s"
    and "startTime s + lockPeriod s + GRACE_PERIOD \<le> UINT256_MAX"
    and "startTime s + lockPeriod s \<le> now" "now < startTime s + lockPeriod s + GRACE_PERIOD"
  shows "unstake now u i v =
     and_then (calculateReward now v u i) (\<lambda>reward.
     if \<not> reward \<le> rewardPool v then Inl (Revert ''insufficient reward pool balance'')
     else and_then (add256 (rewardsClaimed s) reward) (\<lambda>rc.
          and_then (add256 (amount s) reward) (\<lambda>payout.
          Inr (set_stake (v\<lparr>rewardPool := rewardPool v - reward\<rparr>) u i
                 (s\<lparr>rewardsClaimed := rc, amount := 0, active := False\<rparr>),
               [SafeTransfer u payout], UnstakeAfterLock u i (amount s) reward))))"
proof -
  have ex: "isExpired now s = Inr False"
    using assms by (simp add: isExpired_fits)
  have unlock: "add256 (startTime s) (lockPeriod s) = Inr (startTime s + lockPeriod s)"
    using assms by (simp add: add256_def)
  have at: "stake_at v u i = Inr s" and same: "set_stake v u i s = v"
    using assms(2,3) by (simp_all add: stake_at_def set_stake_same)
  show ?thesis
  proof (cases "calculateReward now v u i")
    case (Inl e)
    then show ?thesis
      using assms(1,4,6) by (auto simp: unstake_def at ex unlock Let_def same)
  next
    case (Inr reward)
    then show ?thesis
      using assms(1,4,6) by (auto simp: unstake_def at ex unlock Let_def same sub256_def)
  qed
qed

lemma unstake_expired_eq:
  assumes "\<not> paused v" "i < length (stakes v u)" "s = stakes v u ! i" "active s \<or> expired s"
    and "startTime s + lockPeriod s + GRACE_PERIOD \<le> UINT256_MAX"
    and "startTime s + lockPeriod s + GRACE_PERIOD \<le> now"
  shows "unstake now u i v =
     (if rewardsClaimed s \<le> UINT256_MAX \<and> amount s \<le> UINT256_MAX
      then Inr (set_stake v u i (s\<lparr>expired := True, amount := 0, active := False\<rparr>),
                [SafeTransfer u (amount s)], UnstakeAfterLock u i (amount s) 0)
      else Inl Panic_arith)"
proof -
  have ex: "isExpired now s = Inr True"
    using assms by (simp add: isExpired_fits)
  have unlock: "add256 (startTime s) (lockPeriod s) = Inr (startTime s + lockPeriod s)"
    using assms by (simp add: add256_def)
  have rw: "calculateReward now (set_stake v u i (s\<lparr>expired := True\<rparr>)) u i = Inr 0"
    using assms(2) by (simp add: calculateReward_def stake_at_set_stake)
  have at: "stake_at v u i = Inr s"
    using assms(2,3) by (simp add: stake_at_def)
  have zero: "add256 x 0 = (if x \<le> UINT256_MAX then Inr x else Inl Panic_arith)" for x
    by (simp add: add256_def)
  have fin: "set_stake (set_stake v u i (s\<lparr>expired := True\<rparr>)\<lparr>rewardPool := rewardPool v\<rparr>) u i
       (s\<lparr>expired := True, amount := 0, active := False\<rparr>) =
     set_stake v u i (s\<lparr>expired := True, amount := 0, active := False\<rparr>)"
    by (simp add: set_stake_def)
  show ?thesis
    using assms(1,4,6)
    by (auto simp: unstake_def at ex unlock Let_def rw sub256_def zero fin)
qed

lemma unstake_Inr_pre:
  assumes "unstake now u i v = Inr (v', xs, ev)"
  shows "\<not> paused v" and "i < length (stakes v u)"
    and "active (stakes v u ! i) \<or> expired (stakes v u ! i)"
    and "startTime (stakes v u ! i) + lockPeriod (stakes v u ! i) + GRACE_PERIOD \<le> UINT256_MAX"
proof -
  show 1: "\<not> paused v"
    using assms by (auto simp: unstake_def)
  show 2: "i < length (stakes v u)"
    using assms 1 by (auto simp: unstake_def stake_at_def split: if_splits)
  then have at: "stake_at v u i = Inr (stakes v u ! i)"
    by (simp add: stake_at_def)
  show 3: "active (stakes v u ! i) \<or> expired (stakes v u ! i)"
    using assms 1 by (auto simp: unstake_def at split: if_splits)
  show "startTime (stakes v u ! i) + lockPeriod (stakes v u ! i) + GRACE_PERIOD \<le> UINT256_MAX"
  proof (rule ccontr)
    assume "\<not> ?thesis"
    then have "isExpired now (stakes v u ! i) = Inl Panic_arith"
      by (rule isExpired_overflow)
    then show False
      using assms 1 3 by (auto simp: unstake_def at Let_def)
  qed
qed

lemma unstake_Inr:
  assumes "unstake now u i v = Inr (v', xs, ev)" and "s = stakes v u ! i" and "s' = stakes v' u ! i"
  shows "stakes v' = (stakes v)(u := (stakes v u)[i := s']) \<and> amount s' = 0 \<and> \<not> active s' \<and>
     startTime s' = startTime s \<and> lockPeriod s' = lockPeriod s \<and> fixedRate s' = fixedRate s \<and>
     (expired s' \<longleftrightarrow> expired s \<or> startTime s + lockPeriod s + GRACE_PERIOD \<le> now) \<and>
     (rewardsClaimed s \<le> UINT256_MAX \<longrightarrow> rewardsClaimed s' \<le> UINT256_MAX)"
proof -
  note pre = unstake_Inr_pre[OF assms(1), folded assms(2)]
  consider (early) "now < startTime s + lockPeriod s"
    | (grace) "startTime s + lockPeriod s \<le> now" "now < startTime s + lockPeriod s + GRACE_PERIOD"
    | (expired) "startTime s + lockPeriod s + GRACE_PERIOD \<le> now"
    by linarith
  then show ?thesis
  proof cases
    case early
    from assms(1) show ?thesis
      unfolding unstake_early_eq[OF pre(1,2) assms(2) pre(3,4) early]
      using early pre(2) assms(3)
      by (auto simp: and_then_eq_Inr set_stake_def)
  next
    case grace
    from assms(1) show ?thesis
      unfolding unstake_grace_eq[OF pre(1,2) assms(2) pre(3,4) grace]
      using grace pre(2) assms(3)
      by (auto simp: and_then_eq_Inr add256_eq_Inr set_stake_def split: if_splits)
  next
    case expired
    from assms(1) show ?thesis
      unfolding unstake_expired_eq[OF pre(1,2) assms(2) pre(3,4) expired]
      using expired pre(2) assms(3)
      by (auto simp: set_stake_def split: if_splits)
  qed
qed


lemma stake_inv_mono: "stake_inv t s \<Longrightarrow> t \<le> t' \<Longrightarrow> stake_inv t' s"
  by (auto simp: stake_inv_def split: if_splits)

lemma vault_inv_nth: "vault_inv t v \<Longrightarrow> i < length (stakes v u) \<Longrightarrow> stake_inv t (stakes v u ! i)"
  by (simp add: vault_inv_def list_all_length)

lemma vault_inv_same: "vault_inv t v \<Longrightarrow> t \<le> t' \<Longrightarrow> stakes v' = stakes v \<Longrightarrow> vault_inv t' v'"
  by (auto simp: vault_inv_def list_all_length intro: stake_inv_mono)

lemma vault_inv_update:
  assumes "vault_inv t v" "t \<le> t'" "stakes v' = (stakes v)(u := (stakes v u)[i := s'])"
    and "stake_inv t' s'"
  shows "vault_inv t' v'"
proof -
  have "stake_inv t' ((stakes v u)[i := s'] ! n)" if "n < length (stakes v u)" for n
  proof (cases "n = i")
    case True
    with that assms(4) show ?thesis by simp
  next
    case False
    with that assms(1,2) show ?thesis
      by (auto simp: vault_inv_def list_all_length intro: stake_inv_mono)
  qed
  moreover have "stake_inv t' (stakes v w ! n)" if "n < length (stakes v w)" for w n
    using that assms(1,2) by (auto simp: vault_inv_def list_all_length intro: stake_inv_mono)
  ultimately show ?thesis
    by (simp add: vault_inv_def list_all_length assms(3))
qed

lemma vault_inv_append:
  assumes "vault_inv t v" "t \<le> t'" "stakes v' = (stakes v)(u := stakes v u @ [s'])"
    and "stake_inv t' s'"
  shows "vault_inv t' v'"
proof -
  have old: "stake_inv t' (stakes v w ! n)" if "n < length (stakes v w)" for w n
    using that assms(1,2) by (auto simp: vault_inv_def list_all_length intro: stake_inv_mono)
  have "stake_inv t' ((stakes v u @ [s']) ! n)" if "n < Suc (length (stakes v u))" for n
    using that old[of n u] assms(4) by (cases "n < length (stakes v u)") (simp_all add: nth_append)
  with old show ?thesis
    by (simp add: vault_inv_def list_all_length assms(3))
qed

lemma cleanUp_Inr:
  assumes "cleanUpExpiredStake now sender u i v = Inr (v', xs, ev)" and "s = stakes v u ! i"
  shows "i < length (stakes v u) \<and> active s \<and>
     startTime s + lockPeriod s + GRACE_PERIOD \<le> now \<and>
     v' = set_stake v u i (s\<lparr>active := False, expired := True\<rparr>)"
  using assms
  by (auto simp: cleanUpExpiredStake_def and_then_eq_Inr stake_at_eq_Inr isExpired_eq_Inr
      split: if_splits)

lemma emergencyWithdraw_Inr:
  assumes "emergencyWithdraw u i v = Inr (v', xs, ev)" and "s = stakes v u ! i"
  shows "paused v \<and> i < length (stakes v u) \<and> active s \<and>
     v' = set_stake v u i (s\<lparr>amount := 0, active := False\<rparr>) \<and>
     xs = [SafeTransfer u (amount s)] \<and> ev = EmergencyWithdrawal u i (amount s)"
  using assms
  by (auto simp: emergencyWithdraw_def and_then_eq_Inr stake_at_eq_Inr Let_def split: if_splits)

lemma stake_Inr:
  assumes "stake now u amt lp v = Inr (v', xs, ev)"
  shows "\<not> paused v \<and> 0 < amt \<and> 0 < dailyRateByLock v lp \<and>
     stakes v' = (stakes v)(u := stakes v u @
       [\<lparr>amount = amt, startTime = now, lockPeriod = lp, fixedRate = dailyRateByLock v lp,
         rewardsClaimed = 0, active = True, expired = False\<rparr>])"
  using assms by (auto simp: stake_def Let_def split: if_splits)

lemma exec_vault_inv:
  assumes inv: "vault_inv t v" and le: "t \<le> t'" and fits: "call_fits c"
    and ex: "exec t' sender c v = Inr (v', xs, ev)"
  shows "vault_inv t' v'"
proof (cases c)
  case (SetLockParameters lp r p)
  with ex have "stakes v' = stakes v"
    by (auto simp: setLockParameters_def split: if_splits)
  then show ?thesis using inv le by (rule vault_inv_same[rotated 2])
next
  case (FundRewardPool a)
  with ex have "stakes v' = stakes v"
    by (auto simp: fundRewardPool_def and_then_eq_Inr split: if_splits)
  then show ?thesis using inv le by (rule vault_inv_same[rotated 2])
next
  case (Stake a lp)
  with ex have st: "stake t' sender a lp v = Inr (v', xs, ev)" by simp
  note facts = stake_Inr[OF st]
  have "stake_inv t' \<lparr>amount = a, startTime = t', lockPeriod = lp, fixedRate = dailyRateByLock v lp,
         rewardsClaimed = 0, active = True, expired = False\<rparr>"
    using facts fits Stake by (simp add: stake_inv_def)
  with inv le facts show ?thesis by (blast intro: vault_inv_append)
next
  case (ClaimReward i)
  with ex have "claimReward t' sender i v = Inr (v', xs, ev)" by simp
  from claimReward_Inr[OF this] obtain reward where
    i: "i < length (stakes v sender)" and act: "active (stakes v sender ! i)"
    and rw: "calculateReward t' v sender i = Inr reward"
    and fit: "rewardsClaimed (stakes v sender ! i) + reward \<le> UINT256_MAX"
    and v': "v' = set_stake (v\<lparr>rewardPool := rewardPool v - reward\<rparr>) sender i
            ((stakes v sender ! i)\<lparr>rewardsClaimed := rewardsClaimed (stakes v sender ! i) + reward\<rparr>)"
    by blast
  let ?s = "stakes v sender ! i"
  have old: "stake_inv t ?s" using inv i by (rule vault_inv_nth)
  have spec: "reward = calculateReward_spec t' ?s"
    using rw calculateReward_cases[OF i refl, of t'] by (simp split: if_splits)
  have cap: "rewardsClaimed ?s + reward \<le> amount ?s * fixedRate ?s div 100"
    unfolding spec using old act by (intro calculateReward_spec_cap) (simp add: stake_inv_def)
  have "stake_inv t' (?s\<lparr>rewardsClaimed := rewardsClaimed ?s + reward\<rparr>)"
    using stake_inv_mono[OF old le] act fit cap by (simp add: stake_inv_def)
  moreover have "stakes v' = (stakes v)(sender := (stakes v sender)[i := ?s\<lparr>rewardsClaimed := rewardsClaimed ?s + reward\<rparr>])"
    by (simp add: v' set_stake_def)
  ultimately show ?thesis using inv le by (blast intro: vault_inv_update)
next
  case (Unstake i)
  with ex have un: "unstake t' sender i v = Inr (v', xs, ev)" by simp
  let ?s = "stakes v sender ! i" and ?s' = "stakes v' sender ! i"
  note pre = unstake_Inr_pre[OF un] and post = unstake_Inr[OF un refl refl]
  have old: "stake_inv t' ?s" using vault_inv_nth[OF inv pre(2)] le by (rule stake_inv_mono)
  have "stake_inv t' ?s'"
    using old post by (auto simp: stake_inv_def split: if_splits)
  with inv le post show ?thesis by (blast intro: vault_inv_update)
next
  case (CleanUpExpiredStake u i)
  with ex have "cleanUpExpiredStake t' sender u i v = Inr (v', xs, ev)" by simp
  note facts = cleanUp_Inr[OF this refl]
  let ?s = "stakes v u ! i"
  have old: "stake_inv t' ?s" using vault_inv_nth[OF inv] facts le by (blast intro: stake_inv_mono)
  have "stake_inv t' (?s\<lparr>active := False, expired := True\<rparr>)"
    using old facts by (auto simp: stake_inv_def split: if_splits)
  moreover have "stakes v' = (stakes v)(u := (stakes v u)[i := ?s\<lparr>active := False, expired := True\<rparr>])"
    using facts by (simp add: set_stake_def)
  ultimately show ?thesis using inv le by (blast intro: vault_inv_update)
next
  case (EmergencyWithdraw i)
  with ex have "emergencyWithdraw sender i v = Inr (v', xs, ev)" by simp
  note facts = emergencyWithdraw_Inr[OF this refl]
  let ?s = "stakes v sender ! i"
  have old: "stake_inv t' ?s" using vault_inv_nth[OF inv] facts le by (blast intro: stake_inv_mono)
  have "stake_inv t' (?s\<lparr>amount := 0, active := False\<rparr>)"
    using old facts by (auto simp: stake_inv_def split: if_splits)
  moreover have "stakes v' = (stakes v)(sender := (stakes v sender)[i := ?s\<lparr>amount := 0, active := False\<rparr>])"
    using facts by (simp add: set_stake_def)
  ultimately show ?thesis using inv le by (blast intro: vault_inv_update)
next
  case (WithdrawExcessRewards b)
  with ex have "stakes v' = stakes v"
    by (auto simp: withdrawExcessRewards_def and_then_eq_Inr split: if_splits)
  then show ?thesis using inv le by (rule vault_inv_same[rotated 2])
next
  case Pause
  with ex have "stakes v' = stakes v"
    by (auto simp: pause_def split: if_splits)
  then show ?thesis using inv le by (rule vault_inv_same[rotated 2])
next
  case Unpause
  with ex have "stakes v' = stakes v"
    by (auto simp: unpause_def split: if_splits)
  then show ?thesis using inv le by (rule vault_inv_same[rotated 2])
next
  case (TransferOwnership a)
  with ex have "stakes v' = stakes v"
    by (auto simp: transferOwnership_def split: if_splits)
  then show ?thesis using inv le by (rule vault_inv_same[rotated 2])
next
  case RenounceOwnership
  with ex have "stakes v' = stakes v"
    by (auto simp: renounceOwnership_def split: if_splits)
  then show ?thesis using inv le by (rule vault_inv_same[rotated 2])
qed

lemma reach_inv: "reach t v \<Longrightarrow> vault_inv t v \<and> t \<le> UINT256_MAX"
proof (induction rule: reach.induct)
  case (reach_init t deployer)
  then show ?case by (simp add: vault_inv_def init_def)
next
  case (reach_step t v t' c sender v' xs ev)
  then show ?case by (blast intro: exec_vault_inv)
qed

subsection \<open>Facts about the concrete states\<close>

lemma sample_facts:
  "stakes (sample_vault s p) = (\<lambda>_. [])(1 := [s])" "rewardPool (sample_vault s p) = p"
  "paused (sample_vault s p) = False" "owner (sample_vault s p) = 7"
  "penaltyByLock (sample_vault s p) 600 = 10" "dailyRateByLock (sample_vault s p) 600 = 10"
  by (simp_all add: sample_vault_def)

lemma set_stake_sample: "set_stake (sample_vault s p) 1 0 s' = sample_vault s' p"
  by (simp add: set_stake_def sample_vault_def)

lemma sample_vault_pool: "(sample_vault s p)\<lparr>rewardPool := q\<rparr> = sample_vault s q"
  by (simp add: sample_vault_def)

lemma small_fits: "n < 2 ^ 64 \<Longrightarrow> n \<le> UINT256_MAX"
proof -
  have "(2::nat) ^ 64 \<le> 2 ^ 256 - 1" by simp
  then show "n < 2 ^ 64 \<Longrightarrow> n \<le> UINT256_MAX" by (simp add: UINT256_MAX_def)
qed

section \<open>The claims\<close>

subsection \<open>C4: the value of calculateReward\<close>

text \<open>
  Claim C4. For a stake record at a valid index and a time \<open>now\<close>, \<open>calculateReward\<close>
  returns 0 if the record is inactive, flagged expired or past
  \<open>start + lockDuration + GRACE_PERIOD\<close>, and otherwise
  \<open>max(principal * fixedRate * min(now - start, MAX_REWARD_TIME) / (100 * SECONDS_PER_DAY)
  - rewardsClaimed, 0)\<close> with truncating division: the value of
  \<open>calculateReward_spec\<close>. The call returns that value whenever its checked
  arithmetic stays in the \<open>uint256\<close> range (\<open>reward_fits\<close>), and reverts with the
  arithmetic panic otherwise, which is the overflow error that the specification's numeric
  semantics asks for.
\<close>

theorem calculateReward_meets_spec:
  assumes "i < length (stakes v u)" and "s = stakes v u ! i"
  shows "calculateReward now v u i =
     (if reward_fits now s then Inr (calculateReward_spec now s) else Inl Panic_arith)"
  using assms by (rule calculateReward_cases)

theorem calculateReward_meets_spec_witness:
  "0 < length (stakes (sample_vault sample_stake 1000) 1) \<and>
   reward_fits 43200 sample_stake \<and> calculateReward_spec 43200 sample_stake = 5 \<and>
   calculateReward 43200 (sample_vault sample_stake 1000) 1 0 = Inr 5"
proof -
  have 1: "0 < length (stakes (sample_vault sample_stake 1000) 1)"
    by (simp add: sample_facts)
  have 2: "sample_stake = stakes (sample_vault sample_stake 1000) 1 ! 0"
    by (simp add: sample_facts)
  have 3: "reward_fits 43200 sample_stake"
    by (simp add: reward_fits_def sample_stake_def GRACE_PERIOD_def MAX_REWARD_TIME_def small_fits)
  have 4: "calculateReward_spec 43200 sample_stake = 5"
    by (simp add: calculateReward_spec_def sample_stake_def GRACE_PERIOD_def MAX_REWARD_TIME_def
        SECONDS_PER_DAY_def)
  show ?thesis
    using calculateReward_meets_spec[OF 1 2, of 43200] 1 3 4 by simp
qed

subsection \<open>C8: setLockParameters leaves the stakes alone\<close>

lemma calculateReward_stakes:
  "stakes v' = stakes v \<Longrightarrow> calculateReward now v' u i = calculateReward now v u i"
  by (simp add: calculateReward_def stake_at_def)

lemma maxReward_stakes: "stakes v' = stakes v \<Longrightarrow> maxReward v' u i = maxReward v u i"
  by (simp add: maxReward_def stake_at_def)

text \<open>
  Claim C8. A successful \<open>setLockParameters\<close> call, for any duration and rates, leaves
  every stake record unchanged, and with it the result of \<open>calculateReward\<close> (and of
  \<open>maxReward\<close>) for every account, index and time: the rate was copied into
  \<open>fixedRate\<close> when the stake was created and the registry is not read again.
\<close>

theorem setLockParameters_keeps_stakes:
  assumes "setLockParameters sender lp dailyRate penaltyRate v = Inr (v', xs, ev)"
  shows "stakes v' = stakes v \<and> calculateReward now v' u i = calculateReward now v u i \<and>
     maxReward v' u i = maxReward v u i"
proof -
  have "stakes v' = stakes v"
    using assms by (auto simp: setLockParameters_def split: if_splits)
  then show ?thesis
    using calculateReward_stakes[of v' v now u i] maxReward_stakes[of v' v u i] by blast
qed

theorem setLockParameters_keeps_stakes_witness:
  "setLockParameters 7 600 50 90 (sample_vault sample_stake 1000) =
     Inr ((sample_vault sample_stake 1000)
            \<lparr>dailyRateByLock := (dailyRateByLock (sample_vault sample_stake 1000))(600 := 50),
             penaltyByLock := (penaltyByLock (sample_vault sample_stake 1000))(600 := 90)\<rparr>,
          [], LockParametersUpdated 600 50 90) \<and>
   stakes ((sample_vault sample_stake 1000)
            \<lparr>dailyRateByLock := (dailyRateByLock (sample_vault sample_stake 1000))(600 := 50),
             penaltyByLock := (penaltyByLock (sample_vault sample_stake 1000))(600 := 90)\<rparr>) =
     stakes (sample_vault sample_stake 1000) \<and>
   calculateReward 43200 ((sample_vault sample_stake 1000)
            \<lparr>dailyRateByLock := (dailyRateByLock (sample_vault sample_stake 1000))(600 := 50),
             penaltyByLock := (penaltyByLock (sample_vault sample_stake 1000))(600 := 90)\<rparr>) 1 0 =
     calculateReward 43200 (sample_vault sample_stake 1000) 1 0"
proof -
  have run: "setLockParameters 7 600 50 90 (sample_vault sample_stake 1000) =
     Inr ((sample_vault sample_stake 1000)
            \<lparr>dailyRateByLock := (dailyRateByLock (sample_vault sample_stake 1000))(600 := 50),
             penaltyByLock := (penaltyByLock (sample_vault sample_stake 1000))(600 := 90)\<rparr>,
          [], LockParametersUpdated 600 50 90)"
    by (simp add: setLockParameters_def sample_facts)
  from setLockParameters_keeps_stakes[OF run, of 43200 1 0] run show ?thesis
    by blast
qed

subsection \<open>C7: emergencyWithdraw\<close>

text \<open>
  Claim C7. For a record at a valid index, \<open>emergencyWithdraw\<close> succeeds exactly when
  the vault is paused and the record is active; it then transfers the stored principal
  and nothing else, leaves the reward pool and the record's \<open>rewardsClaimed\<close>
  unchanged, and zeroes the principal and the active flag. It fails with
  \<open>ExpectedPause\<close> when the vault is not paused and with \<open>invalid stake\<close> when the
  record is inactive.
\<close>

theorem emergencyWithdraw_principal_only:
  assumes "i < length (stakes v u)" and "s = stakes v u ! i"
  shows "(paused v \<and> active s \<longrightarrow>
           (\<exists>v'. emergencyWithdraw u i v =
                    Inr (v', [SafeTransfer u (amount s)], EmergencyWithdrawal u i (amount s)) \<and>
                  rewardPool v' = rewardPool v \<and>
                  stakes v' u ! i = s\<lparr>amount := 0, active := False\<rparr> \<and>
                  rewardsClaimed (stakes v' u ! i) = rewardsClaimed s)) \<and>
         (\<not> paused v \<longrightarrow> emergencyWithdraw u i v = Inl ExpectedPause) \<and>
         (paused v \<and> \<not> active s \<longrightarrow> emergencyWithdraw u i v = Inl (Revert ''invalid stake''))"
  using assms
  by (simp add: emergencyWithdraw_def stake_at_def Let_def set_stake_def)

theorem emergencyWithdraw_principal_only_witness:
  "0 < length (stakes ((sample_vault sample_stake 1000)\<lparr>paused := True\<rparr>) 1) \<and>
   paused ((sample_vault sample_stake 1000)\<lparr>paused := True\<rparr>) \<and> active sample_stake \<and>
   (\<exists>v'. emergencyWithdraw 1 0 ((sample_vault sample_stake 1000)\<lparr>paused := True\<rparr>) =
            Inr (v', [SafeTransfer 1 (amount sample_stake)],
                 EmergencyWithdrawal 1 0 (amount sample_stake)) \<and>
          rewardPool v' = rewardPool ((sample_vault sample_stake 1000)\<lparr>paused := True\<rparr>) \<and>
          stakes v' 1 ! 0 = sample_stake\<lparr>amount := 0, active := False\<rparr> \<and>
          rewardsClaimed (stakes v' 1 ! 0) = rewardsClaimed sample_stake) \<and>
   amount sample_stake = 100 \<and>
   emergencyWithdraw 1 0 (sample_vault sample_stake 1000) = Inl ExpectedPause"
proof -
  let ?v = "(sample_vault sample_stake 1000)\<lparr>paused := True\<rparr>"
  have 1: "0 < length (stakes ?v 1)" and 2: "sample_stake = stakes ?v 1 ! 0"
    by (simp_all add: sample_facts)
  have 3: "0 < length (stakes (sample_vault sample_stake 1000) 1)"
    and 4: "sample_stake = stakes (sample_vault sample_stake 1000) 1 ! 0"
    by (simp_all add: sample_facts)
  have 5: "paused ?v \<and> active sample_stake" and 6: "amount sample_stake = 100"
    and 7: "\<not> paused (sample_vault sample_stake 1000)"
    by (simp_all add: sample_stake_def sample_facts)
  from emergencyWithdraw_principal_only[OF 1 2] 5
  have a: "\<exists>v'. emergencyWithdraw 1 0 ?v =
            Inr (v', [SafeTransfer 1 (amount sample_stake)],
                 EmergencyWithdrawal 1 0 (amount sample_stake)) \<and>
          rewardPool v' = rewardPool ?v \<and>
          stakes v' 1 ! 0 = sample_stake\<lparr>amount := 0, active := False\<rparr> \<and>
          rewardsClaimed (stakes v' 1 ! 0) = rewardsClaimed sample_stake"
    by blast
  from emergencyWithdraw_principal_only[OF 3 4] 7
  have b: "emergencyWithdraw 1 0 (sample_vault sample_stake 1000) = Inl ExpectedPause"
    by blast
  from 1 5 a 6 b show ?thesis by blast
qed

subsection \<open>C3: claiming twice at the same time\<close>

lemma reward_fits_claimed:
  "reward_fits now (s\<lparr>rewardsClaimed := c\<rparr>) = reward_fits now s"
  by (simp add: reward_fits_def)

lemma calculateReward_spec_claimed:
  "calculateReward_spec now (s\<lparr>rewardsClaimed := rewardsClaimed s + calculateReward_spec now s\<rparr>) = 0"
  by (simp add: calculateReward_spec_def claimable_nat Let_def)

text \<open>
  Claim C3. If \<open>claimReward\<close> succeeds at time \<open>now\<close>, a second \<open>claimReward\<close> for
  the same record at the same time pays nothing: the claimable reward is then 0, so the
  call reverts with \<open>no accrued rewards\<close> and no token moves.
\<close>

theorem claimReward_twice_pays_nothing:
  assumes "claimReward now u i v = Inr (v', xs, ev)"
  shows "calculateReward now v' u i = Inr 0 \<and>
     claimReward now u i v' = Inl (Revert ''no accrued rewards'')"
proof -
  let ?s = "stakes v u ! i"
  from claimReward_Inr[OF assms] obtain reward where
    np: "\<not> paused v" and i: "i < length (stakes v u)" and act: "active ?s"
    and rw: "calculateReward now v u i = Inr reward"
    and v': "v' = set_stake (v\<lparr>rewardPool := rewardPool v - reward\<rparr>) u i
            (?s\<lparr>rewardsClaimed := rewardsClaimed ?s + reward\<rparr>)"
    by blast
  have fits: "reward_fits now ?s" and spec: "reward = calculateReward_spec now ?s"
    using rw calculateReward_cases[OF i refl, of now] by (simp_all split: if_splits)
  let ?s' = "?s\<lparr>rewardsClaimed := rewardsClaimed ?s + reward\<rparr>"
  have i': "i < length (stakes v' u)" and s': "?s' = stakes v' u ! i"
    using i by (simp_all add: v' set_stake_def)
  have zero: "calculateReward now v' u i = Inr 0"
    unfolding calculateReward_cases[OF i' s', of now]
    by (simp add: reward_fits_claimed fits spec calculateReward_spec_claimed)
  have at: "stake_at v' u i = Inr ?s'"
    using i' s' by (simp add: stake_at_def)
  have "\<not> paused v'"
    using np by (simp add: v')
  then have "claimReward now u i v' = Inl (Revert ''no accrued rewards'')"
    using act by (simp add: claimReward_def at zero)
  with zero show ?thesis by simp
qed

lemma claim_sample:
  "claimReward 43200 1 0 (sample_vault sample_stake 1000) =
     Inr (sample_vault (sample_stake\<lparr>rewardsClaimed := 5\<rparr>) 995, [SafeTransfer 1 5],
          ClaimedReward 1 0 5)"
proof -
  have 1: "0 < length (stakes (sample_vault sample_stake 1000) 1)"
    and 2: "sample_stake = stakes (sample_vault sample_stake 1000) 1 ! 0"
    by (simp_all add: sample_facts)
  have 3: "reward_fits 43200 sample_stake"
    by (simp add: reward_fits_def sample_stake_def GRACE_PERIOD_def MAX_REWARD_TIME_def small_fits)
  have 4: "calculateReward_spec 43200 sample_stake = 5"
    by (simp add: calculateReward_spec_def sample_stake_def GRACE_PERIOD_def MAX_REWARD_TIME_def
        SECONDS_PER_DAY_def)
  have rw: "calculateReward 43200 (sample_vault sample_stake 1000) 1 0 = Inr 5"
    using calculateReward_cases[OF 1 2, of 43200] 3 4 by simp
  have at: "stake_at (sample_vault sample_stake 1000) 1 0 = Inr sample_stake"
    by (simp add: stake_at_def sample_facts)
  have c: "rewardsClaimed sample_stake = 0" "active sample_stake"
    by (simp_all add: sample_stake_def)
  show ?thesis
    by (simp add: claimReward_def at rw c sample_facts add256_def sub256_def small_fits
        sample_vault_pool set_stake_sample del: One_nat_def)
qed

theorem claimReward_twice_pays_nothing_witness:
  "claimReward 43200 1 0 (sample_vault sample_stake 1000) =
     Inr (sample_vault (sample_stake\<lparr>rewardsClaimed := 5\<rparr>) 995, [SafeTransfer 1 5],
          ClaimedReward 1 0 5) \<and>
   calculateReward 43200 (sample_vault (sample_stake\<lparr>rewardsClaimed := 5\<rparr>) 995) 1 0 = Inr 0 \<and>
   claimReward 43200 1 0 (sample_vault (sample_stake\<lparr>rewardsClaimed := 5\<rparr>) 995) =
     Inl (Revert ''no accrued rewards'')"
  using claimReward_twice_pays_nothing[OF claim_sample] claim_sample by blast


subsection \<open>C5: unstaking before the lock ends\<close>

lemma unstake_overflow:
  assumes "\<not> paused v" "i < length (stakes v u)" "s = stakes v u ! i" "active s \<or> expired s"
    and "\<not> startTime s + lockPeriod s + GRACE_PERIOD \<le> UINT256_MAX"
  shows "unstake now u i v = Inl Panic_arith"
proof -
  have at: "stake_at v u i = Inr s"
    using assms(2,3) by (simp add: stake_at_def)
  have ex: "isExpired now s = Inl Panic_arith"
    using assms(5) by (rule isExpired_overflow)
  show ?thesis
    using assms(1,4) by (auto simp: unstake_def at ex Let_def)
qed

lemma unstake_early_cases:
  assumes "\<not> paused v" "i < length (stakes v u)" "s = stakes v u ! i" "active s \<or> expired s"
    and "now < startTime s + lockPeriod s"
    and "penalty = amount s * penaltyByLock v (lockPeriod s) div 100"
  shows "unstake now u i v =
     (if startTime s + lockPeriod s + GRACE_PERIOD \<le> UINT256_MAX \<and>
         amount s * penaltyByLock v (lockPeriod s) \<le> UINT256_MAX \<and>
         rewardPool v + penalty \<le> UINT256_MAX \<and> penalty \<le> amount s
      then Inr (set_stake (v\<lparr>rewardPool := rewardPool v + penalty\<rparr>) u i
                  (s\<lparr>amount := 0, active := False\<rparr>),
                [SafeTransfer u (amount s - penalty)], EarlyUnstake u i (amount s) penalty)
      else Inl Panic_arith)"
proof (cases "startTime s + lockPeriod s + GRACE_PERIOD \<le> UINT256_MAX")
  case True
  show ?thesis
    unfolding unstake_early_eq[OF assms(1-4) True assms(5)]
    using True by (simp add: mul256_def add256_def sub256_def assms(6))
next
  case False
  with unstake_overflow[OF assms(1-4) False] show ?thesis by simp
qed

lemma penalty_exceeds_iff: "(a::nat) < a * r div 100 \<longleftrightarrow> 100 \<le> a * (r - 100)"
proof -
  have "a < a * r div 100 \<longleftrightarrow> Suc a \<le> a * r div 100" by auto
  also have "\<dots> \<longleftrightarrow> Suc a * 100 \<le> a * r" by (simp add: less_eq_div_iff_mult_less_eq)
  also have "\<dots> \<longleftrightarrow> 100 \<le> a * r - a * 100" by auto
  also have "a * r - a * 100 = a * (r - 100)" by (simp add: diff_mult_distrib2)
  finally show ?thesis .
qed

lemma penalty_within: "r \<le> 100 \<Longrightarrow> (a::nat) * r div 100 \<le> a"
proof -
  assume "r \<le> 100"
  then have "a * r \<le> a * 100" by simp
  then have "a * r div 100 \<le> a * 100 div 100" by (rule div_le_mono)
  then show ?thesis by simp
qed

lemma penal_facts:
  "stakes penal_vault = (\<lambda>_. [])(1 := [\<lparr>amount = 100, startTime = 0, lockPeriod = 600,
        fixedRate = 10, rewardsClaimed = 0, active = True, expired = False\<rparr>])"
  "rewardPool penal_vault = 0" "paused penal_vault = False" "penaltyByLock penal_vault 600 = 101"
  by (simp_all add: penal_vault_def)

lemma reach_penal: "reach 0 penal_vault"
proof -
  have 0: "reach 0 (init 7)"
    by (rule reach_init) simp
  have 1: "reach 0 (init 7\<lparr>dailyRateByLock := (dailyRateByLock (init 7))(600 := 10),
                           penaltyByLock := (penaltyByLock (init 7))(600 := 101)\<rparr>)"
    by (rule reach_step[OF 0, of 0 "SetLockParameters 600 10 101" 7])
      (simp_all add: setLockParameters_def init_def small_fits)
  have 2: "reach 0 (init 7\<lparr>dailyRateByLock := (dailyRateByLock (init 7))(600 := 10),
                           penaltyByLock := (penaltyByLock (init 7))(600 := 101),
                           stakes := (stakes (init 7))(1 := stakes (init 7) 1 @
                             [\<lparr>amount = 100, startTime = 0, lockPeriod = 600, fixedRate = 10,
                               rewardsClaimed = 0, active = True, expired = False\<rparr>])\<rparr>)"
    by (rule reach_step[OF 1, of 0 "Stake 100 600" 1])
      (simp_all add: stake_def init_def small_fits)
  have "init 7\<lparr>dailyRateByLock := (dailyRateByLock (init 7))(600 := 10),
                           penaltyByLock := (penaltyByLock (init 7))(600 := 101),
                           stakes := (stakes (init 7))(1 := stakes (init 7) 1 @
                             [\<lparr>amount = 100, startTime = 0, lockPeriod = 600, fixedRate = 10,
                               rewardsClaimed = 0, active = True, expired = False\<rparr>])\<rparr> =
        penal_vault"
    by (simp add: init_def penal_vault_def)
  with 2 show ?thesis by simp
qed

text \<open>
  Claim C5 says that an early \<open>unstake\<close> of an active record, on an unpaused vault,
  always pays the principal minus the penalty. \<open>setLockParameters\<close> accepts any
  penalty rate, and with a rate above 100 the penalty can exceed the principal: after
  the owner registers a penalty of 101 and account 1 stakes 100, the penalty is 101,
  the subtraction \<open>amount - penalty\<close> underflows and the call reverts, paying
  nothing.
\<close>

theorem unstake_early_pays_counterexample:
  "reach 0 penal_vault \<and> active (stakes penal_vault 1 ! 0) \<and> \<not> paused penal_vault \<and>
   (300::nat) < startTime (stakes penal_vault 1 ! 0) + lockPeriod (stakes penal_vault 1 ! 0) \<and>
   amount (stakes penal_vault 1 ! 0) = 100 \<and>
   penaltyByLock penal_vault (lockPeriod (stakes penal_vault 1 ! 0)) = 101 \<and>
   amount (stakes penal_vault 1 ! 0) *
     penaltyByLock penal_vault (lockPeriod (stakes penal_vault 1 ! 0)) div 100 = 101 \<and>
   unstake 300 1 0 penal_vault = Inl Panic_arith"
proof -
  let ?s = "stakes penal_vault 1 ! 0"
  have 1: "\<not> paused penal_vault" and 2: "0 < length (stakes penal_vault 1)"
    and 3: "active ?s \<or> expired ?s" and 4: "300 < startTime ?s + lockPeriod ?s"
    and 5: "(101::nat) = amount ?s * penaltyByLock penal_vault (lockPeriod ?s) div 100"
    and 6: "penaltyByLock penal_vault (lockPeriod ?s) = 101" and 7: "active ?s"
    and 8: "amount ?s = 100"
    by (simp_all add: penal_facts)
  have "unstake 300 1 0 penal_vault = Inl Panic_arith"
    using unstake_early_cases[OF 1 2 refl 3 4 5] 8 by simp
  with reach_penal 1 4 5 6 7 8 show ?thesis by simp
qed

text \<open>
  Claim C5, amended. For an active record, \<open>unstake\<close> on an unpaused vault before
  \<open>start + lockDuration\<close> computes the penalty \<open>principal * penaltyRate / 100\<close>.
  Whenever that penalty does not exceed the principal and the checked arithmetic stays
  in the \<open>uint256\<close> range, the call transfers the principal minus the penalty, adds
  exactly the penalty to the reward pool, emits \<open>EarlyUnstake\<close> (no reward is
  computed or paid) and changes only the principal and the active flag of the record, so
  \<open>rewardsClaimed\<close> stays. Otherwise, in particular when a penalty rate above 100
  makes the penalty exceed the principal, it reverts with the arithmetic panic.
\<close>

theorem unstake_early_pays_principal_less_penalty:
  assumes "i < length (stakes v u)" and "s = stakes v u ! i" and "active s" and "\<not> paused v"
    and "now < startTime s + lockPeriod s"
    and "penalty = amount s * penaltyByLock v (lockPeriod s) div 100"
  shows "(startTime s + lockPeriod s + GRACE_PERIOD \<le> UINT256_MAX \<and>
          amount s * penaltyByLock v (lockPeriod s) \<le> UINT256_MAX \<and>
          rewardPool v + penalty \<le> UINT256_MAX \<and> penalty \<le> amount s \<longrightarrow>
            (\<exists>v'. unstake now u i v =
                     Inr (v', [SafeTransfer u (amount s - penalty)],
                          EarlyUnstake u i (amount s) penalty) \<and>
                   rewardPool v' = rewardPool v + penalty \<and>
                   stakes v' u ! i = s\<lparr>amount := 0, active := False\<rparr> \<and>
                   rewardsClaimed (stakes v' u ! i) = rewardsClaimed s)) \<and>
         (\<not> (startTime s + lockPeriod s + GRACE_PERIOD \<le> UINT256_MAX \<and>
             amount s * penaltyByLock v (lockPeriod s) \<le> UINT256_MAX \<and>
             rewardPool v + penalty \<le> UINT256_MAX \<and> penalty \<le> amount s) \<longrightarrow>
            unstake now u i v = Inl Panic_arith)"
proof -
  have live: "active s \<or> expired s" using assms(3) by simp
  note eq = unstake_early_cases[OF assms(4,1,2) live assms(5,6)]
  have post: "rewardPool (set_stake (v\<lparr>rewardPool := rewardPool v + penalty\<rparr>) u i
                  (s\<lparr>amount := 0, active := False\<rparr>)) = rewardPool v + penalty"
    "stakes (set_stake (v\<lparr>rewardPool := rewardPool v + penalty\<rparr>) u i
                  (s\<lparr>amount := 0, active := False\<rparr>)) u ! i = s\<lparr>amount := 0, active := False\<rparr>"
    using assms(1) by (simp_all add: set_stake_def)
  show ?thesis
  proof (intro conjI impI)
    assume fits: "startTime s + lockPeriod s + GRACE_PERIOD \<le> UINT256_MAX \<and>
          amount s * penaltyByLock v (lockPeriod s) \<le> UINT256_MAX \<and>
          rewardPool v + penalty \<le> UINT256_MAX \<and> penalty \<le> amount s"
    then have "unstake now u i v =
        Inr (set_stake (v\<lparr>rewardPool := rewardPool v + penalty\<rparr>) u i
                  (s\<lparr>amount := 0, active := False\<rparr>),
             [SafeTransfer u (amount s - penalty)], EarlyUnstake u i (amount s) penalty)"
      using eq by simp
    with post show "\<exists>v'. unstake now u i v =
                     Inr (v', [SafeTransfer u (amount s - penalty)],
                          EarlyUnstake u i (amount s) penalty) \<and>
                   rewardPool v' = rewardPool v + penalty \<and>
                   stakes v' u ! i = s\<lparr>amount := 0, active := False\<rparr> \<and>
                   rewardsClaimed (stakes v' u ! i) = rewardsClaimed s"
      by simp
  next
    assume "\<not> (startTime s + lockPeriod s + GRACE_PERIOD \<le> UINT256_MAX \<and>
             amount s * penaltyByLock v (lockPeriod s) \<le> UINT256_MAX \<and>
             rewardPool v + penalty \<le> UINT256_MAX \<and> penalty \<le> amount s)"
    then show "unstake now u i v = Inl Panic_arith"
      using eq by simp
  qed
qed

theorem unstake_early_pays_principal_less_penalty_witness:
  "0 < length (stakes (sample_vault sample_stake 1000) 1) \<and> active sample_stake \<and>
   \<not> paused (sample_vault sample_stake 1000) \<and>
   (300::nat) < startTime sample_stake + lockPeriod sample_stake \<and>
   (10::nat) = amount sample_stake * penaltyByLock (sample_vault sample_stake 1000)
      (lockPeriod sample_stake) div 100 \<and>
   amount sample_stake = 100 \<and> rewardPool (sample_vault sample_stake 1000) = 1000 \<and>
   (\<exists>v'. unstake 300 1 0 (sample_vault sample_stake 1000) =
           Inr (v', [SafeTransfer 1 (amount sample_stake - 10)],
                EarlyUnstake 1 0 (amount sample_stake) 10) \<and>
         rewardPool v' = rewardPool (sample_vault sample_stake 1000) + 10 \<and>
         stakes v' 1 ! 0 = sample_stake\<lparr>amount := 0, active := False\<rparr> \<and>
         rewardsClaimed (stakes v' 1 ! 0) = rewardsClaimed sample_stake)"
proof -
  let ?v = "sample_vault sample_stake 1000"
  have 1: "0 < length (stakes ?v 1)" and 2: "sample_stake = stakes ?v 1 ! 0"
    by (simp_all add: sample_facts)
  have 3: "active sample_stake" and 4: "\<not> paused ?v"
    and 5: "(300::nat) < startTime sample_stake + lockPeriod sample_stake"
    and 6: "(10::nat) = amount sample_stake * penaltyByLock ?v (lockPeriod sample_stake) div 100"
    and 7: "amount sample_stake = 100" "rewardPool ?v = 1000"
    by (simp_all add: sample_stake_def sample_facts)
  have fits: "startTime sample_stake + lockPeriod sample_stake + GRACE_PERIOD \<le> UINT256_MAX \<and>
          amount sample_stake * penaltyByLock ?v (lockPeriod sample_stake) \<le> UINT256_MAX \<and>
          rewardPool ?v + 10 \<le> UINT256_MAX \<and> 10 \<le> amount sample_stake"
    by (simp add: sample_stake_def sample_facts GRACE_PERIOD_def small_fits)
  from unstake_early_pays_principal_less_penalty[OF 1 2 3 4 5 6] fits
  have "\<exists>v'. unstake 300 1 0 ?v =
           Inr (v', [SafeTransfer 1 (amount sample_stake - 10)],
                EarlyUnstake 1 0 (amount sample_stake) 10) \<and>
         rewardPool v' = rewardPool ?v + 10 \<and>
         stakes v' 1 ! 0 = sample_stake\<lparr>amount := 0, active := False\<rparr> \<and>
         rewardsClaimed (stakes v' 1 ! 0) = rewardsClaimed sample_stake"
    by blast
  with 1 3 4 5 6 7 show ?thesis by blast
qed


subsection \<open>C6: unstaking after the lock ended\<close>

lemma unstake_grace_cases:
  assumes "\<not> paused v" "i < length (stakes v u)" "s = stakes v u ! i" "active s \<or> expired s"
    and "startTime s + lockPeriod s + GRACE_PERIOD \<le> UINT256_MAX"
    and "startTime s + lockPeriod s \<le> now" "now < startTime s + lockPeriod s + GRACE_PERIOD"
  shows "unstake now u i v =
     (case calculateReward now v u i of
        Inl e \<Rightarrow> Inl e
      | Inr reward \<Rightarrow>
          if rewardPool v < reward then Inl (Revert ''insufficient reward pool balance'')
          else if rewardsClaimed s + reward \<le> UINT256_MAX \<and> amount s + reward \<le> UINT256_MAX
          then Inr (set_stake (v\<lparr>rewardPool := rewardPool v - reward\<rparr>) u i
                      (s\<lparr>rewardsClaimed := rewardsClaimed s + reward, amount := 0, active := False\<rparr>),
                    [SafeTransfer u (amount s + reward)],
                    UnstakeAfterLock u i (amount s) reward)
          else Inl Panic_arith)"
  unfolding unstake_grace_eq[OF assms]
  by (cases "calculateReward now v u i") (auto simp: add256_def)

text \<open>
  Claim C6. For an active record of an unpaused vault with \<open>now \<ge> start + lockDuration\<close>:
  while the grace period runs, \<open>unstake\<close> transfers the principal plus the reward that
  \<open>calculateReward\<close> gives at that instant, takes exactly that reward from the pool and
  adds it to \<open>rewardsClaimed\<close>, and it reverts with
  \<open>insufficient reward pool balance\<close> when the reward exceeds the pool; once
  \<open>now \<ge> start + lockDuration + GRACE_PERIOD\<close> it sets the expired flag, pays the
  principal only with reward 0, leaves the pool as it is and emits \<open>UnstakeAfterLock\<close>,
  so the penalty path is not taken. The record's fields are \<open>uint256\<close> values.
\<close>

theorem unstake_after_lock:
  assumes "i < length (stakes v u)" and "s = stakes v u ! i" and "active s" and "\<not> paused v"
    and "startTime s + lockPeriod s \<le> now"
    and "startTime s + lockPeriod s + GRACE_PERIOD \<le> UINT256_MAX"
    and "amount s \<le> UINT256_MAX" and "rewardsClaimed s \<le> UINT256_MAX"
  shows "(now < startTime s + lockPeriod s + GRACE_PERIOD \<longrightarrow>
          unstake now u i v =
            (case calculateReward now v u i of
               Inl e \<Rightarrow> Inl e
             | Inr reward \<Rightarrow>
                 if rewardPool v < reward then Inl (Revert ''insufficient reward pool balance'')
                 else if rewardsClaimed s + reward \<le> UINT256_MAX \<and>
                         amount s + reward \<le> UINT256_MAX
                 then Inr (set_stake (v\<lparr>rewardPool := rewardPool v - reward\<rparr>) u i
                             (s\<lparr>rewardsClaimed := rewardsClaimed s + reward, amount := 0,
                                active := False\<rparr>),
                           [SafeTransfer u (amount s + reward)],
                           UnstakeAfterLock u i (amount s) reward)
                 else Inl Panic_arith)) \<and>
         (startTime s + lockPeriod s + GRACE_PERIOD \<le> now \<longrightarrow>
          unstake now u i v =
            Inr (set_stake v u i (s\<lparr>expired := True, amount := 0, active := False\<rparr>),
                 [SafeTransfer u (amount s)], UnstakeAfterLock u i (amount s) 0))"
proof -
  have live: "active s \<or> expired s" using assms(3) by simp
  show ?thesis
  proof (intro conjI impI)
    assume "now < startTime s + lockPeriod s + GRACE_PERIOD"
    then show "unstake now u i v =
            (case calculateReward now v u i of
               Inl e \<Rightarrow> Inl e
             | Inr reward \<Rightarrow>
                 if rewardPool v < reward then Inl (Revert ''insufficient reward pool balance'')
                 else if rewardsClaimed s + reward \<le> UINT256_MAX \<and>
                         amount s + reward \<le> UINT256_MAX
                 then Inr (set_stake (v\<lparr>rewardPool := rewardPool v - reward\<rparr>) u i
                             (s\<lparr>rewardsClaimed := rewardsClaimed s + reward, amount := 0,
                                active := False\<rparr>),
                           [SafeTransfer u (amount s + reward)],
                           UnstakeAfterLock u i (amount s) reward)
                 else Inl Panic_arith)"
      by (rule unstake_grace_cases[OF assms(4,1,2) live assms(6,5)])
  next
    assume "startTime s + lockPeriod s + GRACE_PERIOD \<le> now"
    from unstake_expired_eq[OF assms(4,1,2) live assms(6) this] assms(7,8)
    show "unstake now u i v =
            Inr (set_stake v u i (s\<lparr>expired := True, amount := 0, active := False\<rparr>),
                 [SafeTransfer u (amount s)], UnstakeAfterLock u i (amount s) 0)"
      by simp
  qed
qed

lemma sample_reward_43200: "calculateReward 43200 (sample_vault sample_stake 1000) 1 0 = Inr 5"
proof -
  have 1: "0 < length (stakes (sample_vault sample_stake 1000) 1)"
    and 2: "sample_stake = stakes (sample_vault sample_stake 1000) 1 ! 0"
    by (simp_all add: sample_facts)
  have 3: "reward_fits 43200 sample_stake"
    by (simp add: reward_fits_def sample_stake_def GRACE_PERIOD_def MAX_REWARD_TIME_def small_fits)
  have 4: "calculateReward_spec 43200 sample_stake = 5"
    by (simp add: calculateReward_spec_def sample_stake_def GRACE_PERIOD_def MAX_REWARD_TIME_def
        SECONDS_PER_DAY_def)
  show ?thesis
    using calculateReward_cases[OF 1 2, of 43200] 3 4 by simp
qed

theorem unstake_after_lock_witness:
  "unstake 43200 1 0 (sample_vault sample_stake 1000) =
     Inr (sample_vault (sample_stake\<lparr>rewardsClaimed := 5, amount := 0, active := False\<rparr>) 995,
          [SafeTransfer 1 105], UnstakeAfterLock 1 0 100 5) \<and>
   unstake 173400 1 0 (sample_vault sample_stake 1000) =
     Inr (sample_vault (sample_stake\<lparr>expired := True, amount := 0, active := False\<rparr>) 1000,
          [SafeTransfer 1 100], UnstakeAfterLock 1 0 100 0)"
proof -
  let ?v = "sample_vault sample_stake 1000"
  have 1: "0 < length (stakes ?v 1)" and 2: "sample_stake = stakes ?v 1 ! 0"
    by (simp_all add: sample_facts)
  have 3: "active sample_stake" and 4: "\<not> paused ?v"
    and 5: "startTime sample_stake + lockPeriod sample_stake \<le> 43200"
      "startTime sample_stake + lockPeriod sample_stake \<le> 173400"
    and 6: "startTime sample_stake + lockPeriod sample_stake + GRACE_PERIOD \<le> UINT256_MAX"
    and 7: "amount sample_stake \<le> UINT256_MAX" "rewardsClaimed sample_stake \<le> UINT256_MAX"
    and 8: "43200 < startTime sample_stake + lockPeriod sample_stake + GRACE_PERIOD"
      "startTime sample_stake + lockPeriod sample_stake + GRACE_PERIOD \<le> 173400"
    by (simp_all add: sample_stake_def sample_facts GRACE_PERIOD_def small_fits)
  have f: "amount sample_stake = 100" "rewardsClaimed sample_stake = 0"
    by (simp_all add: sample_stake_def)
  have a: "unstake 43200 1 0 ?v =
     Inr (sample_vault (sample_stake\<lparr>rewardsClaimed := 5, amount := 0, active := False\<rparr>) 995,
          [SafeTransfer 1 105], UnstakeAfterLock 1 0 100 5)"
    using unstake_after_lock[OF 1 2 3 4 5(1) 6 7] 8(1)
    by (simp add: sample_reward_43200 sample_facts f small_fits sample_vault_pool set_stake_sample
        del: One_nat_def)
  have b: "unstake 173400 1 0 ?v =
     Inr (sample_vault (sample_stake\<lparr>expired := True, amount := 0, active := False\<rparr>) 1000,
          [SafeTransfer 1 100], UnstakeAfterLock 1 0 100 0)"
    using unstake_after_lock[OF 1 2 3 4 5(2) 6 7] 8(2)
    by (simp add: f set_stake_sample del: One_nat_def)
  from a b show ?thesis by simp
qed


subsection \<open>The concrete states are reachable\<close>

lemma reach_sample: "reach 0 (sample_vault sample_stake 1000)"
proof -
  have 0: "reach 0 (init 7)"
    by (rule reach_init) simp
  have 1: "reach 0 (init 7\<lparr>dailyRateByLock := (dailyRateByLock (init 7))(600 := 10),
                           penaltyByLock := (penaltyByLock (init 7))(600 := 10)\<rparr>)"
    by (rule reach_step[OF 0, of 0 "SetLockParameters 600 10 10" 7])
      (simp_all add: setLockParameters_def init_def small_fits)
  have 2: "reach 0 (init 7\<lparr>dailyRateByLock := (dailyRateByLock (init 7))(600 := 10),
                           penaltyByLock := (penaltyByLock (init 7))(600 := 10),
                           rewardPool := 1000\<rparr>)"
    by (rule reach_step[OF 1, of 0 "FundRewardPool 1000" 7])
      (simp_all add: fundRewardPool_def init_def add256_def small_fits)
  have 3: "reach 0 (init 7\<lparr>dailyRateByLock := (dailyRateByLock (init 7))(600 := 10),
                           penaltyByLock := (penaltyByLock (init 7))(600 := 10),
                           rewardPool := 1000,
                           stakes := (stakes (init 7))(1 := stakes (init 7) 1 @ [sample_stake])\<rparr>)"
    by (rule reach_step[OF 2, of 0 "Stake 100 600" 1])
      (simp_all add: stake_def init_def small_fits sample_stake_def)
  have "init 7\<lparr>dailyRateByLock := (dailyRateByLock (init 7))(600 := 10),
                penaltyByLock := (penaltyByLock (init 7))(600 := 10),
                rewardPool := 1000,
                stakes := (stakes (init 7))(1 := stakes (init 7) 1 @ [sample_stake])\<rparr> =
        sample_vault sample_stake 1000"
    by (simp add: init_def sample_vault_def)
  with 3 show ?thesis by simp
qed

lemma reach_unit: "reach 0 unit_vault"
proof -
  have 0: "reach 0 (init 7)"
    by (rule reach_init) simp
  have 1: "reach 0 (init 7\<lparr>dailyRateByLock := (dailyRateByLock (init 7))(600 := 10),
                           penaltyByLock := (penaltyByLock (init 7))(600 := 101)\<rparr>)"
    by (rule reach_step[OF 0, of 0 "SetLockParameters 600 10 101" 7])
      (simp_all add: setLockParameters_def init_def small_fits)
  have 2: "reach 0 (init 7\<lparr>dailyRateByLock := (dailyRateByLock (init 7))(600 := 10),
                           penaltyByLock := (penaltyByLock (init 7))(600 := 101),
                           stakes := (stakes (init 7))(1 := stakes (init 7) 1 @
                             [\<lparr>amount = 1, startTime = 0, lockPeriod = 600, fixedRate = 10,
                               rewardsClaimed = 0, active = True, expired = False\<rparr>])\<rparr>)"
    by (rule reach_step[OF 1, of 0 "Stake 1 600" 1])
      (simp_all add: stake_def init_def small_fits)
  have "init 7\<lparr>dailyRateByLock := (dailyRateByLock (init 7))(600 := 10),
                           penaltyByLock := (penaltyByLock (init 7))(600 := 101),
                           stakes := (stakes (init 7))(1 := stakes (init 7) 1 @
                             [\<lparr>amount = 1, startTime = 0, lockPeriod = 600, fixedRate = 10,
                               rewardsClaimed = 0, active = True, expired = False\<rparr>])\<rparr> =
        unit_vault"
    by (simp add: init_def unit_vault_def)
  with 2 show ?thesis by simp
qed

subsection \<open>C10: a penalty rate above 100\<close>

lemma unit_facts:
  "stakes unit_vault = (\<lambda>_. [])(1 := [\<lparr>amount = 1, startTime = 0, lockPeriod = 600, fixedRate = 10,
        rewardsClaimed = 0, active = True, expired = False\<rparr>])"
  "rewardPool unit_vault = 0" "paused unit_vault = False" "penaltyByLock unit_vault 600 = 101"
  by (simp_all add: unit_vault_def)

lemma penalty_all: "100 < r \<Longrightarrow> a * (r - 100) < 100 \<Longrightarrow> (a::nat) * r div 100 = a"
proof -
  assume r: "100 < r" and small: "a * (r - 100) < 100"
  have "a * r = a * (r - 100) + a * 100"
    using r by (simp add: diff_mult_distrib2)
  then have "a * r div 100 = a * (r - 100) div 100 + a" by simp
  with small show ?thesis by simp
qed

text \<open>
  Claim C10 says that an early \<open>unstake\<close> of an active record always fails with an
  arithmetic error when the registered penalty rate is above 100. The penalty is
  \<open>principal * penaltyRate / 100\<close> with truncating division, so for a small principal
  it does not exceed the principal: with a principal of 1 and a rate of 101 the penalty is
  1, the call succeeds, credits the pool with 1 and transfers 0.
\<close>

theorem unstake_early_penalty_counterexample:
  "reach 0 unit_vault \<and> active (stakes unit_vault 1 ! 0) \<and>
   penaltyByLock unit_vault (lockPeriod (stakes unit_vault 1 ! 0)) = 101 \<and>
   \<not> paused unit_vault \<and>
   (0::nat) < startTime (stakes unit_vault 1 ! 0) + lockPeriod (stakes unit_vault 1 ! 0) \<and>
   unstake 0 1 0 unit_vault =
     Inr (set_stake (unit_vault\<lparr>rewardPool := 1\<rparr>) 1 0
            ((stakes unit_vault 1 ! 0)\<lparr>amount := 0, active := False\<rparr>),
          [SafeTransfer 1 0], EarlyUnstake 1 0 1 1)"
proof -
  let ?s = "stakes unit_vault 1 ! 0"
  have s: "?s = \<lparr>amount = 1, startTime = 0, lockPeriod = 600, fixedRate = 10,
        rewardsClaimed = 0, active = True, expired = False\<rparr>"
    by (simp add: unit_facts)
  have 1: "\<not> paused unit_vault" and 2: "0 < length (stakes unit_vault 1)"
    and 3: "active ?s \<or> expired ?s" and 4: "0 < startTime ?s + lockPeriod ?s"
    and 5: "(1::nat) = amount ?s * penaltyByLock unit_vault (lockPeriod ?s) div 100"
    and 6: "penaltyByLock unit_vault (lockPeriod ?s) = 101" and 7: "active ?s"
    by (simp_all add: unit_facts)
  have fits: "startTime ?s + lockPeriod ?s + GRACE_PERIOD \<le> UINT256_MAX \<and>
         amount ?s * penaltyByLock unit_vault (lockPeriod ?s) \<le> UINT256_MAX \<and>
         rewardPool unit_vault + 1 \<le> UINT256_MAX \<and> 1 \<le> amount ?s"
    by (simp add: unit_facts GRACE_PERIOD_def small_fits)
  have "unstake 0 1 0 unit_vault =
     Inr (set_stake (unit_vault\<lparr>rewardPool := 1\<rparr>) 1 0 (?s\<lparr>amount := 0, active := False\<rparr>),
          [SafeTransfer 1 0], EarlyUnstake 1 0 1 1)"
    using unstake_early_cases[OF 1 2 refl 3 4 5] fits
    by (simp add: unit_facts del: One_nat_def)
  with reach_unit 1 4 6 7 show ?thesis by blast
qed

text \<open>
  Claim C10, amended. For an active record of an unpaused vault, before
  \<open>start + lockDuration\<close>, with registered penalty rate \<open>rate\<close>: \<open>unstake\<close> reverts
  with the arithmetic panic whenever \<open>principal * (rate - 100) \<ge> 100\<close>, that is,
  whenever the truncated penalty exceeds the principal. For a rate above 100 and a
  principal too small for that, the penalty equals the principal and the call succeeds,
  transferring 0. For a rate of at most 100 the subtraction cannot underflow: the call
  succeeds unless one of the other checked operations leaves the \<open>uint256\<close> range.
\<close>

theorem unstake_early_penalty_panic:
  assumes "i < length (stakes v u)" and "s = stakes v u ! i" and "active s" and "\<not> paused v"
    and "now < startTime s + lockPeriod s"
    and "rate = penaltyByLock v (lockPeriod s)"
  shows "(100 \<le> amount s * (rate - 100) \<longrightarrow> unstake now u i v = Inl Panic_arith) \<and>
         (100 < rate \<and> amount s * (rate - 100) < 100 \<and>
          startTime s + lockPeriod s + GRACE_PERIOD \<le> UINT256_MAX \<and>
          amount s * rate \<le> UINT256_MAX \<and> rewardPool v + amount s \<le> UINT256_MAX \<longrightarrow>
            (\<exists>v'. unstake now u i v =
                     Inr (v', [SafeTransfer u 0], EarlyUnstake u i (amount s) (amount s)))) \<and>
         (rate \<le> 100 \<and>
          startTime s + lockPeriod s + GRACE_PERIOD \<le> UINT256_MAX \<and>
          amount s * rate \<le> UINT256_MAX \<and>
          rewardPool v + amount s * rate div 100 \<le> UINT256_MAX \<longrightarrow>
            (\<exists>v'. unstake now u i v =
                     Inr (v', [SafeTransfer u (amount s - amount s * rate div 100)],
                          EarlyUnstake u i (amount s) (amount s * rate div 100))))"
proof -
  have live: "active s \<or> expired s" using assms(3) by simp
  have pen: "amount s * rate div 100 = amount s * penaltyByLock v (lockPeriod s) div 100"
    by (simp add: assms(6))
  note eq = unstake_early_cases[OF assms(4,1,2) live assms(5) pen]
  show ?thesis
  proof (intro conjI impI)
    assume "100 \<le> amount s * (rate - 100)"
    then have "amount s < amount s * rate div 100"
      by (simp add: penalty_exceeds_iff)
    then show "unstake now u i v = Inl Panic_arith"
      using eq by simp
  next
    assume a: "100 < rate \<and> amount s * (rate - 100) < 100 \<and>
          startTime s + lockPeriod s + GRACE_PERIOD \<le> UINT256_MAX \<and>
          amount s * rate \<le> UINT256_MAX \<and> rewardPool v + amount s \<le> UINT256_MAX"
    then have "amount s * rate div 100 = amount s"
      by (simp add: penalty_all)
    with a show "\<exists>v'. unstake now u i v =
                     Inr (v', [SafeTransfer u 0], EarlyUnstake u i (amount s) (amount s))"
      using eq by (simp add: assms(6))
  next
    assume a: "rate \<le> 100 \<and>
          startTime s + lockPeriod s + GRACE_PERIOD \<le> UINT256_MAX \<and>
          amount s * rate \<le> UINT256_MAX \<and>
          rewardPool v + amount s * rate div 100 \<le> UINT256_MAX"
    then have "amount s * rate div 100 \<le> amount s"
      by (simp add: penalty_within)
    with a show "\<exists>v'. unstake now u i v =
                     Inr (v', [SafeTransfer u (amount s - amount s * rate div 100)],
                          EarlyUnstake u i (amount s) (amount s * rate div 100))"
      using eq by (simp add: assms(6))
  qed
qed


theorem unstake_early_penalty_panic_witness:
  "unstake 0 1 0 (set_stake unit_vault 1 0 \<lparr>amount = 100, startTime = 0, lockPeriod = 600, fixedRate = 10,
        rewardsClaimed = 0, active = True, expired = False\<rparr>) =
     Inl Panic_arith \<and>
   (\<exists>v'. unstake 0 1 0 unit_vault = Inr (v', [SafeTransfer 1 0], EarlyUnstake 1 0 1 1)) \<and>
   (\<exists>v'. unstake 300 1 0 (sample_vault sample_stake 1000) =
           Inr (v', [SafeTransfer 1 90], EarlyUnstake 1 0 100 10))"
proof -
  let ?s = "stakes unit_vault 1 ! 0"
  let ?r = "\<lparr>amount = 100, startTime = 0, lockPeriod = 600, fixedRate = 10,
        rewardsClaimed = 0, active = True, expired = False\<rparr>"
  let ?w = "set_stake unit_vault 1 0 ?r"
  have w: "stakes ?w 1 = [?r]" "paused ?w = False" "penaltyByLock ?w 600 = 101"
    by (simp_all add: set_stake_def unit_facts del: One_nat_def)
  have s: "?s = \<lparr>amount = 1, startTime = 0, lockPeriod = 600, fixedRate = 10,
        rewardsClaimed = 0, active = True, expired = False\<rparr>"
    by (simp add: unit_facts)
  have a: "unstake 0 1 0 ?w = Inl Panic_arith"
  proof -
    have 1: "0 < length (stakes ?w 1)" and 2: "?r = stakes ?w 1 ! 0"
      and 3: "active ?r" and 4: "\<not> paused ?w"
      and 5: "0 < startTime ?r + lockPeriod ?r"
      and 6: "(101::nat) = penaltyByLock ?w (lockPeriod ?r)"
      and 7: "100 \<le> amount ?r * (101 - 100)"
      by (simp_all add: w unit_facts(2-4) del: One_nat_def)
    from unstake_early_penalty_panic[OF 1 2 3 4 5 6] 7 show ?thesis by blast
  qed
  have b: "\<exists>v'. unstake 0 1 0 unit_vault = Inr (v', [SafeTransfer 1 0], EarlyUnstake 1 0 1 1)"
  proof -
    have 1: "0 < length (stakes unit_vault 1)"
      and 3: "active ?s" and 4: "\<not> paused unit_vault"
      and 5: "0 < startTime ?s + lockPeriod ?s"
      and 6: "(101::nat) = penaltyByLock unit_vault (lockPeriod ?s)"
      and 7: "(100::nat) < 101 \<and> amount ?s * (101 - 100) < 100 \<and>
          startTime ?s + lockPeriod ?s + GRACE_PERIOD \<le> UINT256_MAX \<and>
          amount ?s * 101 \<le> UINT256_MAX \<and> rewardPool unit_vault + amount ?s \<le> UINT256_MAX"
      and 8: "amount ?s = 1"
      by (simp_all add: unit_facts GRACE_PERIOD_def small_fits)
    from unstake_early_penalty_panic[OF 1 refl 3 4 5 6] 7
    have "\<exists>v'. unstake 0 1 0 unit_vault =
        Inr (v', [SafeTransfer 1 0], EarlyUnstake 1 0 (amount ?s) (amount ?s))"
      by blast
    then show ?thesis by (simp only: 8)
  qed
  have c: "\<exists>v'. unstake 300 1 0 (sample_vault sample_stake 1000) =
           Inr (v', [SafeTransfer 1 90], EarlyUnstake 1 0 100 10)"
  proof -
    let ?v = "sample_vault sample_stake 1000"
    have 1: "0 < length (stakes ?v 1)" and 2: "sample_stake = stakes ?v 1 ! 0"
      and 3: "active sample_stake" and 4: "\<not> paused ?v"
      and 5: "300 < startTime sample_stake + lockPeriod sample_stake"
      and 6: "(10::nat) = penaltyByLock ?v (lockPeriod sample_stake)"
      and 7: "(10::nat) \<le> 100 \<and>
          startTime sample_stake + lockPeriod sample_stake + GRACE_PERIOD \<le> UINT256_MAX \<and>
          amount sample_stake * 10 \<le> UINT256_MAX \<and>
          rewardPool ?v + amount sample_stake * 10 div 100 \<le> UINT256_MAX"
      and 8: "amount sample_stake = 100"
      by (simp_all add: sample_facts sample_stake_def GRACE_PERIOD_def small_fits)
    from unstake_early_penalty_panic[OF 1 2 3 4 5 6] 7
    have "\<exists>v'. unstake 300 1 0 ?v =
        Inr (v', [SafeTransfer 1 (amount sample_stake - amount sample_stake * 10 div 100)],
             EarlyUnstake 1 0 (amount sample_stake) (amount sample_stake * 10 div 100))"
      by blast
    then show ?thesis by (simp add: 8 del: One_nat_def)
  qed
  from a b c show ?thesis by blast
qed

subsection \<open>C9: unstaking a withdrawn, expired record again\<close>

lemma reach_stake_inv:
  assumes "reach t v" and "i < length (stakes v u)"
  shows "stake_inv t (stakes v u ! i)" and "t \<le> UINT256_MAX"
  using reach_inv[OF assms(1)] assms(2) by (simp_all add: vault_inv_nth)

text \<open>
  Claim C9. In a reachable state, a record that is inactive, flagged expired and holds
  no principal can be unstaked again at any later time while the vault is not paused:
  the call succeeds, changes nothing in the state, requests a transfer of 0 and emits
  \<open>UnstakeAfterLock\<close> with principal 0 and reward 0.
\<close>

theorem unstake_again_after_expiry:
  assumes "reach t v" and "t \<le> now" and "i < length (stakes v u)" and "s = stakes v u ! i"
    and "\<not> active s" and "expired s" and "amount s = 0" and "\<not> paused v"
  shows "unstake now u i v = Inr (v, [SafeTransfer u 0], UnstakeAfterLock u i 0 0)"
proof -
  have inv: "stake_inv t s" and t: "t \<le> UINT256_MAX"
    using reach_stake_inv[OF assms(1,3)] assms(4) by simp_all
  have past: "startTime s + lockPeriod s + GRACE_PERIOD \<le> t"
    and claimed: "rewardsClaimed s \<le> UINT256_MAX"
    using inv assms(6) by (simp_all add: stake_inv_def)
  have fits: "startTime s + lockPeriod s + GRACE_PERIOD \<le> UINT256_MAX"
    and due: "startTime s + lockPeriod s + GRACE_PERIOD \<le> now"
    using past t assms(2) by simp_all
  have live: "active s \<or> expired s" using assms(6) by simp
  have same: "s\<lparr>expired := True, amount := 0, active := False\<rparr> = s"
    using assms(5-7) by simp
  have same_v: "set_stake v u i s = v"
    using assms(3) unfolding assms(4) by (rule set_stake_same)
  have "unstake now u i v =
      Inr (set_stake v u i (s\<lparr>expired := True, amount := 0, active := False\<rparr>),
           [SafeTransfer u (amount s)], UnstakeAfterLock u i (amount s) 0)"
    using unstake_expired_eq[OF assms(8,3,4) live fits due] claimed assms(7) by simp
  then show ?thesis
    unfolding same same_v assms(7) .
qed


subsection \<open>Transitions of the sample vault\<close>

lemma unstake_sample_grace:
  "unstake 43200 1 0 (sample_vault sample_stake 1000) =
     Inr (sample_vault (sample_stake\<lparr>rewardsClaimed := 5, amount := 0, active := False\<rparr>) 995,
          [SafeTransfer 1 105], UnstakeAfterLock 1 0 100 5)"
proof -
  let ?v = "sample_vault sample_stake 1000"
  have 1: "\<not> paused ?v" and 2: "0 < length (stakes ?v 1)" and 3: "sample_stake = stakes ?v 1 ! 0"
    and 4: "active sample_stake \<or> expired sample_stake"
    and 5: "startTime sample_stake + lockPeriod sample_stake + GRACE_PERIOD \<le> UINT256_MAX"
    and 6: "startTime sample_stake + lockPeriod sample_stake \<le> 43200"
    and 7: "43200 < startTime sample_stake + lockPeriod sample_stake + GRACE_PERIOD"
    by (simp_all add: sample_stake_def sample_facts GRACE_PERIOD_def small_fits)
  have f: "amount sample_stake = 100" "rewardsClaimed sample_stake = 0"
    by (simp_all add: sample_stake_def)
  show ?thesis
    unfolding unstake_grace_cases[OF 1 2 3 4 5 6 7]
    by (simp add: sample_reward_43200 sample_facts f small_fits sample_vault_pool set_stake_sample
        del: One_nat_def)
qed

lemma unstake_sample_expired:
  "unstake 173400 1 0 (sample_vault sample_stake 1000) =
     Inr (sample_vault (sample_stake\<lparr>expired := True, amount := 0, active := False\<rparr>) 1000,
          [SafeTransfer 1 100], UnstakeAfterLock 1 0 100 0)"
proof -
  let ?v = "sample_vault sample_stake 1000"
  have 1: "\<not> paused ?v" and 2: "0 < length (stakes ?v 1)" and 3: "sample_stake = stakes ?v 1 ! 0"
    and 4: "active sample_stake \<or> expired sample_stake"
    and 5: "startTime sample_stake + lockPeriod sample_stake + GRACE_PERIOD \<le> UINT256_MAX"
    and 6: "startTime sample_stake + lockPeriod sample_stake + GRACE_PERIOD \<le> 173400"
    by (simp_all add: sample_stake_def sample_facts GRACE_PERIOD_def small_fits)
  have f: "amount sample_stake = 100" "rewardsClaimed sample_stake = 0"
    by (simp_all add: sample_stake_def)
  show ?thesis
    unfolding unstake_expired_eq[OF 1 2 3 4 5 6]
    by (simp add: f small_fits set_stake_sample del: One_nat_def)
qed

lemma cleanUp_sample:
  "cleanUpExpiredStake 173400 7 1 0 (sample_vault sample_stake 1000) =
     Inr (sample_vault (sample_stake\<lparr>active := False, expired := True\<rparr>) 1000, [],
          StakeExpired 1 0)"
proof -
  let ?v = "sample_vault sample_stake 1000"
  have at: "stake_at ?v 1 0 = Inr sample_stake"
    by (simp add: stake_at_def sample_facts)
  have ex: "isExpired 173400 sample_stake = Inr True"
    by (simp add: isExpired_eq_Inr sample_stake_def GRACE_PERIOD_def small_fits)
  have act: "active sample_stake"
    by (simp add: sample_stake_def)
  show ?thesis
    by (simp add: cleanUpExpiredStake_def at ex act sample_facts set_stake_sample del: One_nat_def)
qed

lemma reach_withdrawn:
  "reach 43200 (sample_vault (sample_stake\<lparr>rewardsClaimed := 5, amount := 0, active := False\<rparr>) 995)"
  by (rule reach_step[OF reach_sample, of 43200 "Unstake 0" 1])
    (simp_all add: small_fits unstake_sample_grace del: One_nat_def)

lemma reach_expired_withdrawn:
  "reach 173400 (sample_vault (sample_stake\<lparr>expired := True, amount := 0, active := False\<rparr>) 1000)"
  by (rule reach_step[OF reach_sample, of 173400 "Unstake 0" 1])
    (simp_all add: small_fits unstake_sample_expired del: One_nat_def)

lemma reach_cleaned:
  "reach 173400 (sample_vault (sample_stake\<lparr>active := False, expired := True\<rparr>) 1000)"
  by (rule reach_step[OF reach_sample, of 173400 "CleanUpExpiredStake 1 0" 7])
    (simp_all add: small_fits cleanUp_sample del: One_nat_def)

theorem unstake_again_after_expiry_witness:
  "reach 173400 (sample_vault (sample_stake\<lparr>expired := True, amount := 0, active := False\<rparr>) 1000) \<and>
   (173400::nat) \<le> 200000 \<and>
   \<not> paused (sample_vault (sample_stake\<lparr>expired := True, amount := 0, active := False\<rparr>) 1000) \<and>
   unstake 200000 1 0
     (sample_vault (sample_stake\<lparr>expired := True, amount := 0, active := False\<rparr>) 1000) =
     Inr (sample_vault (sample_stake\<lparr>expired := True, amount := 0, active := False\<rparr>) 1000,
          [SafeTransfer 1 0], UnstakeAfterLock 1 0 0 0)"
proof -
  let ?r = "sample_stake\<lparr>expired := True, amount := 0, active := False\<rparr>"
  let ?v = "sample_vault ?r 1000"
  have 1: "(173400::nat) \<le> 200000" and 2: "0 < length (stakes ?v 1)"
    and 3: "?r = stakes ?v 1 ! 0" and 4: "\<not> active ?r" and 5: "expired ?r"
    and 6: "amount ?r = 0" and 7: "\<not> paused ?v"
    by (simp_all add: sample_facts)
  from unstake_again_after_expiry[OF reach_expired_withdrawn 1 2 3 4 5 6 7]
    reach_expired_withdrawn 1 7
  show ?thesis by blast
qed

subsection \<open>C1: the reward cap\<close>

lemma maxReward_cases:
  assumes "i < length (stakes v u)" and "s = stakes v u ! i"
  shows "maxReward v u i =
     (if amount s * fixedRate s \<le> UINT256_MAX then Inr (amount s * fixedRate s div 100)
      else Inl Panic_arith)"
  using assms by (simp add: maxReward_def stake_at_def mul256_def Let_def)

text \<open>
  Claim C1, amended. In every reachable state, for every stake record whose principal
  the vault still holds (the record is active, or was deactivated by
  \<open>cleanUpExpiredStake\<close> only, so its stored amount is positive), \<open>rewardsClaimed\<close>
  plus the reward that \<open>calculateReward\<close> returns at any time is at most
  \<open>amount * fixedRate / 100\<close>, which is the value \<open>maxReward\<close> returns.
\<close>

theorem reward_cap_while_principal_held:
  assumes "reach t v" and "i < length (stakes v u)" and "s = stakes v u ! i"
    and "active s \<or> 0 < amount s"
    and "calculateReward now v u i = Inr r"
  shows "rewardsClaimed s + r \<le> amount s * fixedRate s div 100 \<and>
     maxReward v u i =
       (if amount s * fixedRate s \<le> UINT256_MAX then Inr (amount s * fixedRate s div 100)
        else Inl Panic_arith)"
proof -
  have inv: "stake_inv t s"
    using reach_stake_inv(1)[OF assms(1,2)] assms(3) by simp
  then have claimed: "rewardsClaimed s \<le> amount s * fixedRate s div 100"
    using assms(4) by (auto simp: stake_inv_def split: if_splits)
  have "r = calculateReward_spec now s"
    using assms(5) calculateReward_cases[OF assms(2,3), of now] by (simp split: if_splits)
  with calculateReward_spec_cap[OF claimed, of now]
  have "rewardsClaimed s + r \<le> amount s * fixedRate s div 100" by simp
  with maxReward_cases[OF assms(2,3)] show ?thesis by simp
qed

theorem reward_cap_while_principal_held_witness:
  "reach 0 (sample_vault sample_stake 1000) \<and> active sample_stake \<and>
   calculateReward 43200 (sample_vault sample_stake 1000) 1 0 = Inr 5 \<and>
   rewardsClaimed sample_stake + 5 \<le> amount sample_stake * fixedRate sample_stake div 100 \<and>
   amount sample_stake * fixedRate sample_stake div 100 = 10 \<and>
   maxReward (sample_vault sample_stake 1000) 1 0 = Inr 10"
proof -
  let ?v = "sample_vault sample_stake 1000"
  have 1: "0 < length (stakes ?v 1)" and 2: "sample_stake = stakes ?v 1 ! 0"
    and 3: "active sample_stake \<or> 0 < amount sample_stake"
    and 4: "active sample_stake"
    and 5: "amount sample_stake * fixedRate sample_stake div 100 = 10"
    and 6: "amount sample_stake * fixedRate sample_stake \<le> UINT256_MAX"
    by (simp_all add: sample_facts sample_stake_def small_fits)
  from reward_cap_while_principal_held[OF reach_sample 1 2 3 sample_reward_43200]
  have "rewardsClaimed sample_stake + 5 \<le> amount sample_stake * fixedRate sample_stake div 100"
    and "maxReward ?v 1 0 = Inr 10"
    using 5 6 by simp_all
  with reach_sample 4 5 sample_reward_43200 show ?thesis by blast
qed

text \<open>
  Claim C1 as stated covers every record after any sequence of calls, \<open>unstake\<close>
  included. \<open>unstake\<close> zeroes the stored amount and keeps \<open>rewardsClaimed\<close>: after
  account 1 stakes 100 at time 0 and unstakes at time 43200, receiving a reward of 5, the
  record has \<open>rewardsClaimed = 5\<close> while \<open>amount * fixedRate / 100\<close> and
  \<open>maxReward\<close> are 0.
\<close>

theorem reward_cap_counterexample:
  "reach 43200
     (sample_vault (sample_stake\<lparr>rewardsClaimed := 5, amount := 0, active := False\<rparr>) 995) \<and>
   calculateReward 43200
     (sample_vault (sample_stake\<lparr>rewardsClaimed := 5, amount := 0, active := False\<rparr>) 995) 1 0 =
     Inr 0 \<and>
   maxReward
     (sample_vault (sample_stake\<lparr>rewardsClaimed := 5, amount := 0, active := False\<rparr>) 995) 1 0 =
     Inr 0 \<and>
   rewardsClaimed (stakes
     (sample_vault (sample_stake\<lparr>rewardsClaimed := 5, amount := 0, active := False\<rparr>) 995) 1 ! 0) = 5 \<and>
   \<not> (rewardsClaimed (stakes
     (sample_vault (sample_stake\<lparr>rewardsClaimed := 5, amount := 0, active := False\<rparr>) 995) 1 ! 0) + 0
      \<le> amount (stakes
     (sample_vault (sample_stake\<lparr>rewardsClaimed := 5, amount := 0, active := False\<rparr>) 995) 1 ! 0) *
        fixedRate (stakes
     (sample_vault (sample_stake\<lparr>rewardsClaimed := 5, amount := 0, active := False\<rparr>) 995) 1 ! 0)
        div 100)"
proof -
  let ?r = "sample_stake\<lparr>rewardsClaimed := 5, amount := 0, active := False\<rparr>"
  let ?v = "sample_vault ?r 995"
  have r: "stakes ?v 1 ! 0 = ?r"
    by (simp add: sample_facts)
  have at: "stake_at ?v 1 0 = Inr ?r"
    by (simp add: stake_at_def sample_facts)
  have a: "calculateReward 43200 ?v 1 0 = Inr 0"
    by (simp add: calculateReward_def at del: One_nat_def)
  have b: "maxReward ?v 1 0 = Inr 0"
    by (simp add: maxReward_def at mul256_def del: One_nat_def)
  have c: "rewardsClaimed (stakes ?v 1 ! 0) = 5"
    and d: "\<not> (rewardsClaimed (stakes ?v 1 ! 0) + 0
           \<le> amount (stakes ?v 1 ! 0) * fixedRate (stakes ?v 1 ! 0) div 100)"
    unfolding r by simp_all
  from reach_withdrawn a b c d show ?thesis by blast
qed


subsection \<open>C2: the principal of an inactive record\<close>

lemma inactive_same:
  assumes "stakes v' = stakes v" and "i < length (stakes v u)" and "\<not> active (stakes v u ! i)"
  shows "i < length (stakes v' u) \<and> \<not> active (stakes v' u ! i) \<and>
     (amount (stakes v u ! i) = 0 \<longrightarrow> amount (stakes v' u ! i) = 0)"
  using assms by simp

lemma inactive_append:
  assumes "stakes v' = (stakes v)(w := stakes v w @ [x])"
    and "i < length (stakes v u)" and "\<not> active (stakes v u ! i)"
  shows "i < length (stakes v' u) \<and> \<not> active (stakes v' u ! i) \<and>
     (amount (stakes v u ! i) = 0 \<longrightarrow> amount (stakes v' u ! i) = 0)"
  using assms by (auto simp: nth_append)

lemma inactive_update:
  assumes "stakes v' = (stakes v)(w := (stakes v w)[j := s'])"
    and "i < length (stakes v u)" and "\<not> active (stakes v u ! i)"
    and "active (stakes v w ! j) \<or> (\<not> active s' \<and> amount s' = 0)"
  shows "i < length (stakes v' u) \<and> \<not> active (stakes v' u ! i) \<and>
     (amount (stakes v u ! i) = 0 \<longrightarrow> amount (stakes v' u ! i) = 0)"
proof (cases "w = u \<and> j = i")
  case True
  with assms show ?thesis by auto
next
  case False
  with assms(1-3) show ?thesis by (auto simp: nth_list_update)
qed

lemma exec_inactive:
  assumes ex: "exec t sender c v = Inr (v', xs, ev)"
    and i: "i < length (stakes v u)" and off: "\<not> active (stakes v u ! i)"
  shows "i < length (stakes v' u) \<and> \<not> active (stakes v' u ! i) \<and>
     (amount (stakes v u ! i) = 0 \<longrightarrow> amount (stakes v' u ! i) = 0)"
proof (cases c)
  case (SetLockParameters lp r p)
  with ex have "stakes v' = stakes v"
    by (auto simp: setLockParameters_def split: if_splits)
  then show ?thesis using i off by (rule inactive_same)
next
  case (FundRewardPool a)
  with ex have "stakes v' = stakes v"
    by (auto simp: fundRewardPool_def and_then_eq_Inr split: if_splits)
  then show ?thesis using i off by (rule inactive_same)
next
  case (Stake a lp)
  with ex have "stake t sender a lp v = Inr (v', xs, ev)" by simp
  from stake_Inr[OF this] have "stakes v' = (stakes v)(sender := stakes v sender @
       [\<lparr>amount = a, startTime = t, lockPeriod = lp, fixedRate = dailyRateByLock v lp,
         rewardsClaimed = 0, active = True, expired = False\<rparr>])"
    by simp
  then show ?thesis using i off by (rule inactive_append)
next
  case (ClaimReward j)
  with ex have "claimReward t sender j v = Inr (v', xs, ev)" by simp
  from claimReward_Inr[OF this] obtain reward where
    act: "active (stakes v sender ! j)"
    and v': "v' = set_stake (v\<lparr>rewardPool := rewardPool v - reward\<rparr>) sender j
            ((stakes v sender ! j)\<lparr>rewardsClaimed := rewardsClaimed (stakes v sender ! j) + reward\<rparr>)"
    by blast
  have "stakes v' = (stakes v)(sender := (stakes v sender)[j :=
      (stakes v sender ! j)\<lparr>rewardsClaimed := rewardsClaimed (stakes v sender ! j) + reward\<rparr>])"
    by (simp add: v' set_stake_def)
  then show ?thesis using i off by (rule inactive_update) (simp add: act)
next
  case (Unstake j)
  with ex have un: "unstake t sender j v = Inr (v', xs, ev)" by simp
  note post = unstake_Inr[OF un refl refl]
  from post have upd: "stakes v' = (stakes v)(sender := (stakes v sender)[j := stakes v' sender ! j])"
    and zero: "\<not> active (stakes v' sender ! j) \<and> amount (stakes v' sender ! j) = 0"
    by simp_all
  from upd i off show ?thesis by (rule inactive_update) (simp add: zero)
next
  case (CleanUpExpiredStake w j)
  with ex have "cleanUpExpiredStake t sender w j v = Inr (v', xs, ev)" by simp
  note facts = cleanUp_Inr[OF this refl]
  have "stakes v' = (stakes v)(w := (stakes v w)[j := (stakes v w ! j)\<lparr>active := False, expired := True\<rparr>])"
    using facts by (simp add: set_stake_def)
  then show ?thesis using i off by (rule inactive_update) (simp add: facts)
next
  case (EmergencyWithdraw j)
  with ex have "emergencyWithdraw sender j v = Inr (v', xs, ev)" by simp
  note facts = emergencyWithdraw_Inr[OF this refl]
  have "stakes v' = (stakes v)(sender := (stakes v sender)[j := (stakes v sender ! j)\<lparr>amount := 0, active := False\<rparr>])"
    using facts by (simp add: set_stake_def)
  then show ?thesis using i off by (rule inactive_update) (simp add: facts)
next
  case (WithdrawExcessRewards b)
  with ex have "stakes v' = stakes v"
    by (auto simp: withdrawExcessRewards_def and_then_eq_Inr split: if_splits)
  then show ?thesis using i off by (rule inactive_same)
next
  case Pause
  with ex have "stakes v' = stakes v"
    by (auto simp: pause_def split: if_splits)
  then show ?thesis using i off by (rule inactive_same)
next
  case Unpause
  with ex have "stakes v' = stakes v"
    by (auto simp: unpause_def split: if_splits)
  then show ?thesis using i off by (rule inactive_same)
next
  case (TransferOwnership a)
  with ex have "stakes v' = stakes v"
    by (auto simp: transferOwnership_def split: if_splits)
  then show ?thesis using i off by (rule inactive_same)
next
  case RenounceOwnership
  with ex have "stakes v' = stakes v"
    by (auto simp: renounceOwnership_def split: if_splits)
  then show ?thesis using i off by (rule inactive_same)
qed

lemma later_inactive:
  assumes "later v v'" and "i < length (stakes v u)" and "\<not> active (stakes v u ! i)"
  shows "i < length (stakes v' u) \<and> \<not> active (stakes v' u ! i) \<and>
     (amount (stakes v u ! i) = 0 \<longrightarrow> amount (stakes v' u ! i) = 0)"
  using assms
proof (induction rule: later.induct)
  case (later_refl v)
  then show ?case by simp
next
  case (later_step v v' t sender c v'' xs ev)
  then have mid: "i < length (stakes v' u) \<and> \<not> active (stakes v' u ! i) \<and>
     (amount (stakes v u ! i) = 0 \<longrightarrow> amount (stakes v' u ! i) = 0)"
    by simp
  note ex = \<open>exec t sender c v' = Inr (v'', xs, ev)\<close>
  from mid exec_inactive[OF ex, of i u] show ?case by blast
qed

text \<open>
  Claim C2, amended. In every reachable state an inactive record either holds no
  principal or is flagged expired (it was deactivated by \<open>cleanUpExpiredStake\<close>, which
  leaves the principal in place for a later \<open>unstake\<close>). Whatever calls follow, the
  record stays inactive, and once its amount is zero it stays zero.
\<close>

theorem inactive_record_principal:
  assumes "reach t v" and "i < length (stakes v u)" and "s = stakes v u ! i" and "\<not> active s"
  shows "(amount s = 0 \<or> expired s) \<and>
     (\<forall>v'. later v v' \<longrightarrow>
        i < length (stakes v' u) \<and> \<not> active (stakes v' u ! i) \<and>
        (amount s = 0 \<longrightarrow> amount (stakes v' u ! i) = 0))"
proof -
  have "stake_inv t s"
    using reach_stake_inv(1)[OF assms(1,2)] assms(3) by simp
  then have "amount s = 0 \<or> expired s"
    using assms(4) by (auto simp: stake_inv_def split: if_splits)
  moreover have "i < length (stakes v' u) \<and> \<not> active (stakes v' u ! i) \<and>
        (amount s = 0 \<longrightarrow> amount (stakes v' u ! i) = 0)" if "later v v'" for v'
    using later_inactive[OF that assms(2)] assms(3,4) by simp
  ultimately show ?thesis by blast
qed

text \<open>
  Claim C2 as stated says that no call, \<open>cleanUpExpiredStake\<close> included, leaves a
  record with \<open>active = false\<close> and a positive amount. \<open>cleanUpExpiredStake\<close> clears
  the active flag and does not touch the amount: after account 1 stakes 100 at time 0 and
  the owner cleans the stake up at time 173400, the record is inactive and its amount is
  still 100.
\<close>

theorem inactive_record_principal_counterexample:
  "reach 0 (sample_vault sample_stake 1000) \<and>
   cleanUpExpiredStake 173400 7 1 0 (sample_vault sample_stake 1000) =
     Inr (sample_vault (sample_stake\<lparr>active := False, expired := True\<rparr>) 1000, [],
          StakeExpired 1 0) \<and>
   reach 173400 (sample_vault (sample_stake\<lparr>active := False, expired := True\<rparr>) 1000) \<and>
   \<not> active (stakes (sample_vault (sample_stake\<lparr>active := False, expired := True\<rparr>) 1000) 1 ! 0) \<and>
   amount (stakes (sample_vault (sample_stake\<lparr>active := False, expired := True\<rparr>) 1000) 1 ! 0) = 100"
proof -
  let ?r = "sample_stake\<lparr>active := False, expired := True\<rparr>"
  have r: "stakes (sample_vault ?r 1000) 1 ! 0 = ?r"
    by (simp add: sample_facts)
  have "\<not> active (stakes (sample_vault ?r 1000) 1 ! 0)"
    and "amount (stakes (sample_vault ?r 1000) 1 ! 0) = 100"
    unfolding r by (simp_all add: sample_stake_def)
  with reach_sample cleanUp_sample reach_cleaned show ?thesis by blast
qed

theorem inactive_record_principal_witness:
  "reach 43200
     (sample_vault (sample_stake\<lparr>rewardsClaimed := 5, amount := 0, active := False\<rparr>) 995) \<and>
   \<not> active (sample_stake\<lparr>rewardsClaimed := 5, amount := 0, active := False\<rparr>) \<and>
   amount (sample_stake\<lparr>rewardsClaimed := 5, amount := 0, active := False\<rparr>) = 0 \<and>
   later (sample_vault (sample_stake\<lparr>rewardsClaimed := 5, amount := 0, active := False\<rparr>) 995)
     ((sample_vault (sample_stake\<lparr>rewardsClaimed := 5, amount := 0, active := False\<rparr>) 995)
        \<lparr>paused := True\<rparr>) \<and>
   \<not> active (stakes ((sample_vault (sample_stake\<lparr>rewardsClaimed := 5, amount := 0, active := False\<rparr>) 995)
        \<lparr>paused := True\<rparr>) 1 ! 0) \<and>
   amount (stakes ((sample_vault (sample_stake\<lparr>rewardsClaimed := 5, amount := 0, active := False\<rparr>) 995)
        \<lparr>paused := True\<rparr>) 1 ! 0) = 0"
proof -
  let ?r = "sample_stake\<lparr>rewardsClaimed := 5, amount := 0, active := False\<rparr>"
  let ?v = "sample_vault ?r 995"
  have 1: "0 < length (stakes ?v 1)" and 2: "?r = stakes ?v 1 ! 0"
    and 3: "\<not> active ?r" and 4: "amount ?r = 0"
    by (simp_all add: sample_facts)
  have "exec 43200 7 Pause ?v = Inr (?v\<lparr>paused := True\<rparr>, [], Paused 7)"
    by (simp add: pause_def sample_facts)
  with later_refl[of ?v] have 5: "later ?v (?v\<lparr>paused := True\<rparr>)"
    by (rule later_step)
  from inactive_record_principal[OF reach_withdrawn 1 2 3] 4 5
  have "\<not> active (stakes (?v\<lparr>paused := True\<rparr>) 1 ! 0)"
    and "amount (stakes (?v\<lparr>paused := True\<rparr>) 1 ! 0) = 0"
    by blast+
  with reach_withdrawn 3 4 5 show ?thesis by blast
qed

end
